theory Spec2Isabelle
  imports Complex_Main
begin

section \<open>JavaScript values read and produced by the module\<close>

text \<open>
  The module handles values parsed from JSON (the tier list, the body of an onboarding
  response) and builds one JSON object (the request body). A value is \<open>undefined\<close>,
  \<open>null\<close>, a boolean, a number, a string, an array or an object; an object is the list of
  its own properties. Numbers are only ever tested for truthiness here, so a number is its
  rational value.
\<close>

datatype jsval =
    JUndef
  | JNull
  | JBool bool
  | JNum rat
  | JStr string
  | JArr "jsval list"
  | JObj "(string \<times> jsval) list"

text \<open>A thrown value is an \<open>Error\<close> object; only its kind and message matter.\<close>

datatype js_error = TypeError string | SyntaxError string | NetworkError string

text \<open>JavaScript's \<open>ToBoolean\<close>, which \<open>if (v)\<close>, \<open>!v\<close> and \<open>a && b\<close> apply.\<close>

fun truthy :: "jsval \<Rightarrow> bool" where
  "truthy JUndef = False"
| "truthy JNull = False"
| "truthy (JBool b) = b"
| "truthy (JNum n) = (n \<noteq> 0)"
| "truthy (JStr s) = (s \<noteq> [])"
| "truthy (JArr xs) = True"
| "truthy (JObj kvs) = True"

fun nullish :: "jsval \<Rightarrow> bool" where
  "nullish JUndef = True"
| "nullish JNull = True"
| "nullish v = False"

text \<open>
  \<open>own_prop v k\<close> is what \<open>v.k\<close> evaluates to on a value that is neither \<open>undefined\<close> nor
  \<open>null\<close>, for the property names this module reads (\<open>isDefault\<close>, \<open>id\<close>, \<open>done\<close>,
  \<open>response\<close>, \<open>cloudaicompanionProject\<close>): the stored value on an object that has the
  property, \<open>undefined\<close> on every other object, primitive or array.
\<close>

fun own_prop :: "jsval \<Rightarrow> string \<Rightarrow> jsval" where
  "own_prop (JObj kvs) k = (case map_of kvs k of Some v \<Rightarrow> v | None \<Rightarrow> JUndef)"
| "own_prop v k = JUndef"

text \<open>\<open>v.k\<close>: a \<open>TypeError\<close> on \<open>undefined\<close> and \<open>null\<close>.\<close>

definition get_prop :: "jsval \<Rightarrow> string \<Rightarrow> js_error + jsval" where
  "get_prop v k =
     (if nullish v then Inl (TypeError ''Cannot read properties of undefined or null'')
      else Inr (own_prop v k))"

text \<open>\<open>v?.k\<close>: \<open>undefined\<close> on \<open>undefined\<close> and \<open>null\<close>, never an error.\<close>

definition opt_prop :: "jsval \<Rightarrow> string \<Rightarrow> jsval" where
  "opt_prop v k = (if nullish v then JUndef else own_prop v k)"

text \<open>
  A JavaScript argument or variable that holds a string, \<open>null\<close> or \<open>undefined\<close>
  (\<open>projectId\<close>, \<open>accountEmail\<close>): \<open>None\<close> is \<open>null\<close>/\<open>undefined\<close>. It is truthy when it is a
  non-empty string.
\<close>

definition str_truthy :: "string option \<Rightarrow> bool" where
  "str_truthy s = (case s of None \<Rightarrow> False | Some t \<Rightarrow> t \<noteq> [])"

definition str_val :: "string option \<Rightarrow> jsval" where
  "str_val s = (case s of None \<Rightarrow> JNull | Some t \<Rightarrow> JStr t)"

section \<open>Default tier: \<open>getDefaultTierId\<close>\<close>

text \<open>
  The \<open>for (const tier of allowedTiers)\<close> loop: the \<open>id\<close> of the first tier whose
  \<open>tier?.isDefault\<close> is truthy is returned at once; \<open>None\<close> when the loop runs to its end.
\<close>

fun find_default_tier :: "jsval list \<Rightarrow> js_error + jsval option" where
  "find_default_tier [] = Inr None"
| "find_default_tier (tier # rest) =
     (if truthy (opt_prop tier ''isDefault'')
      then (case get_prop tier ''id'' of Inl e \<Rightarrow> Inl e | Inr v \<Rightarrow> Inr (Some v))
      else find_default_tier rest)"

text \<open>
  \<open>allowedTiers\<close> is an array, or absent (\<open>None\<close>: \<open>undefined\<close> or \<open>null\<close>). The result is a
  JavaScript value, \<open>undefined\<close> included.
\<close>

definition getDefaultTierId :: "jsval list option \<Rightarrow> js_error + jsval" where
  "getDefaultTierId allowedTiers =
     (case allowedTiers of
        None \<Rightarrow> Inr JUndef
      | Some tiers \<Rightarrow>
          if length tiers = 0 then Inr JUndef
          else (case find_default_tier tiers of
                  Inl e \<Rightarrow> Inl e
                | Inr (Some v) \<Rightarrow> Inr v
                | Inr None \<Rightarrow> Inr (opt_prop (tiers ! 0) ''id'')))"

section \<open>Onboarding: \<open>onboardUser\<close>\<close>

subsection \<open>The request\<close>

text \<open>\<open>obj.k = v\<close> on a list of own properties: replaces the value in place, or appends.\<close>

fun set_field :: "(string \<times> 'a) list \<Rightarrow> string \<Rightarrow> 'a \<Rightarrow> (string \<times> 'a) list" where
  "set_field [] k v = [(k, v)]"
| "set_field ((k', v') # kvs) k v =
     (if k' = k then (k', v) # kvs else (k', v') # set_field kvs k v)"

definition has_field :: "(string \<times> 'a) list \<Rightarrow> string \<Rightarrow> bool" where
  "has_field kvs k = (k \<in> set (map fst kvs))"

text \<open>Lines 47 to 55: the \<open>metadata\<close> object, with \<open>duetProject\<close> under \<open>if (projectId)\<close>.\<close>

definition metadata :: "string option \<Rightarrow> (string \<times> jsval) list" where
  "metadata projectId =
     (let m = [(''ideType'', JStr ''IDE_UNSPECIFIED''),
               (''platform'', JStr ''PLATFORM_UNSPECIFIED''),
               (''pluginType'', JStr ''GEMINI'')]
      in if str_truthy projectId then set_field m ''duetProject'' (str_val projectId) else m)"

text \<open>
  Lines 57 to 65: the \<open>requestBody\<close> object, with \<open>cloudaicompanionProject\<close> under
  \<open>if (tierId !== 'FREE' && projectId)\<close>.
\<close>

definition requestBody :: "string \<Rightarrow> string option \<Rightarrow> (string \<times> jsval) list" where
  "requestBody tierId projectId =
     (let b = [(''tierId'', JStr tierId), (''metadata'', JObj (metadata projectId))]
      in if tierId \<noteq> ''FREE'' \<and> str_truthy projectId
         then set_field b ''cloudaicompanionProject'' (str_val projectId)
         else b)"

text \<open>
  What \<open>fetch\<close> is called with. \<open>payload\<close> is the object handed to \<open>JSON.stringify\<close> for
  the \<open>body\<close> option; the serialisation itself is the runtime's and is not modelled.
\<close>

record request =
  url :: string
  http_method :: string
  headers :: "(string \<times> string) list"
  payload :: jsval

text \<open>
  What a fulfilled \<open>fetch\<close> gives: \<open>response.ok\<close>, \<open>response.status\<close>, and what
  \<open>await response.text()\<close> and \<open>await response.json()\<close> evaluate to (\<open>Inl\<close>: the promise
  rejects, as \<open>json()\<close> does on a body that is not JSON).
\<close>

record response =
  ok :: bool
  status :: nat
  text_result :: "js_error + string"
  json_result :: "js_error + jsval"

text \<open>
  The effects of a run, in order: each \<open>fetch\<close> with its request and its outcome (\<open>Inl\<close>:
  the promise rejects), and each \<open>sleep\<close> with its duration. The network is any function
  from the effects so far and the request to an outcome, so it may answer differently at
  every call. Calls to \<open>logger.debug\<close> return normally and are not recorded.
\<close>

datatype event = EvFetch request "js_error + response" | EvSleep int

type_synonym history = "event list"

type_synonym network = "history \<Rightarrow> request \<Rightarrow> js_error + response"

text \<open>
  The variables in scope inside the loops: the collaborators \<open>fetch\<close> and
  \<open>ANTIGRAVITY_HEADERS\<close> (of \<open>constants.js\<close>, which is not among the sources and is
  taken as a parameter), and the arguments of \<open>onboardUser\<close> after defaulting.
\<close>

record onboard_scope =
  fetch :: network
  ANTIGRAVITY_HEADERS :: "(string \<times> string) list"
  token :: string
  tierId :: string
  projectId :: "string option"
  maxAttempts :: int
  delayMs :: int

text \<open>The object spread \<open>{...base, ...extra}\<close>: later keys overwrite earlier ones.\<close>

definition spread :: "(string \<times> 'a) list \<Rightarrow> (string \<times> 'a) list \<Rightarrow> (string \<times> 'a) list" where
  "spread base extra = fold (\<lambda>(k, v) acc. set_field acc k v) extra base"

text \<open>Lines 70 to 78: the arguments of the \<open>fetch\<close> call for one endpoint.\<close>

definition onboard_request :: "onboard_scope \<Rightarrow> string \<Rightarrow> request" where
  "onboard_request c endpoint =
     \<lparr> url = endpoint @ ''/v1internal:onboardUser'',
       http_method = ''POST'',
       headers = spread [(''Authorization'', ''Bearer '' @ token c),
                         (''Content-Type'', ''application/json'')]
                        (ANTIGRAVITY_HEADERS c),
       payload = JObj (requestBody (tierId c) (projectId c)) \<rparr>"

subsection \<open>One attempt\<close>

text \<open>
  Modelled from the spec: \<open>sleep\<close> of \<open>utils/helpers.js\<close>, which is not among the sources.
  It waits \<open>delayMs\<close> milliseconds and has no other effect; the wait is recorded.
\<close>

definition sleep :: "int \<Rightarrow> history \<Rightarrow> history" where
  "sleep ms h = h @ [EvSleep ms]"

text \<open>
  How the body of the attempt loop completes: a \<open>return\<close> of \<open>onboardUser\<close> with its
  value, a \<open>break\<close> out of the attempt loop, or normally (on to \<open>attempt++\<close>).
\<close>

datatype control = Return jsval | Break | Normal

text \<open>
  Lines 70 to 102, the \<open>try\<close> block. \<open>Inl\<close> is an exception thrown inside it: \<open>fetch\<close>
  rejecting, \<open>response.text()\<close> or \<open>response.json()\<close> rejecting, or the \<open>TypeError\<close> of
  \<open>data.response\<close> when the parsed body is \<open>null\<close>. \<open>data.done\<close> is read at lines 91 and
  94 from the same parsed value and is bound once.
\<close>

definition try_block :: "onboard_scope \<Rightarrow> string \<Rightarrow> int \<Rightarrow> history \<Rightarrow> (js_error + control) \<times> history" where
  "try_block c endpoint attempt h =
     (let req = onboard_request c endpoint;
          r = fetch c h req;
          h1 = h @ [EvFetch req r]
      in case r of
           Inl e \<Rightarrow> (Inl e, h1)
         | Inr resp \<Rightarrow>
             if \<not> ok resp then
               (case text_result resp of
                  Inl e \<Rightarrow> (Inl e, h1)
                | Inr errorText \<Rightarrow> (Inr Break, h1))
             else
               (case json_result resp of
                  Inl e \<Rightarrow> (Inl e, h1)
                | Inr data \<Rightarrow>
                    (case get_prop data ''response'' of
                       Inl e \<Rightarrow> (Inl e, h1)
                     | Inr data_response \<Rightarrow>
                         let managedProjectId =
                               opt_prop (opt_prop data_response ''cloudaicompanionProject'') ''id''
                         in (case get_prop data ''done'' of
                               Inl e \<Rightarrow> (Inl e, h1)
                             | Inr data_done \<Rightarrow>
                                 if truthy data_done \<and> truthy managedProjectId
                                 then (Inr (Return managedProjectId), h1)
                                 else if truthy data_done \<and> str_truthy (projectId c)
                                 then (Inr (Return (str_val (projectId c))), h1)
                                 else if attempt < maxAttempts c - 1
                                 then (Inr Normal, sleep (delayMs c) h1)
                                 else (Inr Normal, h1)))))"

text \<open>
  Lines 69 and 103 to 106: \<open>try { ... } catch (error) { ...; break; }\<close>. The handler
  reads \<open>error.message\<close>, which the \<open>Error\<close> objects that \<open>fetch\<close>, \<open>text()\<close> and \<open>json()\<close>
  reject with all have, logs it and leaves the attempt loop.
\<close>

definition attempt_body :: "onboard_scope \<Rightarrow> string \<Rightarrow> int \<Rightarrow> history \<Rightarrow> (js_error + control) \<times> history" where
  "attempt_body c endpoint attempt h =
     (case try_block c endpoint attempt h of
        (Inl error, h') \<Rightarrow> (Inr Break, h')
      | (Inr ctl, h') \<Rightarrow> (Inr ctl, h'))"

subsection \<open>The two loops\<close>

text \<open>
  Line 68: \<open>for (let attempt = 0; attempt < maxAttempts; attempt++)\<close>, entered at
  \<open>attempt\<close>. The result is \<open>Some v\<close> when the body returned \<open>v\<close> from \<open>onboardUser\<close>, \<open>None\<close>
  when the loop ended by \<open>break\<close> or by its condition; an exception of the body would leave
  the loop (\<open>Inl\<close>). \<open>attempt\<close> counts in integers, as it does for every \<open>maxAttempts\<close> a run
  can finish.
\<close>

function attempts_loop :: "onboard_scope \<Rightarrow> string \<Rightarrow> int \<Rightarrow> history \<Rightarrow> (js_error + jsval option) \<times> history" where
  "attempts_loop c endpoint attempt h =
     (if attempt < maxAttempts c then
        (case attempt_body c endpoint attempt h of
           (Inl e, h') \<Rightarrow> (Inl e, h')
         | (Inr (Return v), h') \<Rightarrow> (Inr (Some v), h')
         | (Inr Break, h') \<Rightarrow> (Inr None, h')
         | (Inr Normal, h') \<Rightarrow> attempts_loop c endpoint (attempt + 1) h')
      else (Inr None, h))"
  by pat_completeness auto
termination
  by (relation "measure (\<lambda>(c, endpoint, attempt, h). nat (maxAttempts c - attempt))") auto

text \<open>
  Lines 67 and 110: \<open>for (const endpoint of ONBOARD_USER_ENDPOINTS)\<close>, then \<open>return null\<close>.
\<close>

fun endpoints_loop :: "onboard_scope \<Rightarrow> string list \<Rightarrow> history \<Rightarrow> (js_error + jsval) \<times> history" where
  "endpoints_loop c [] h = (Inr JNull, h)"
| "endpoints_loop c (endpoint # rest) h =
     (case attempts_loop c endpoint 0 h of
        (Inl e, h') \<Rightarrow> (Inl e, h')
      | (Inr (Some v), h') \<Rightarrow> (Inr v, h')
      | (Inr None, h') \<Rightarrow> endpoints_loop c rest h')"

text \<open>
  \<open>onboardUser\<close>. \<open>ONBOARD_USER_ENDPOINTS\<close> is a constant of \<open>constants.js\<close>, taken as a
  parameter like \<open>ANTIGRAVITY_HEADERS\<close>. The optional arguments are \<open>None\<close> when the caller
  leaves them out: \<open>projectId = null\<close>, \<open>maxAttempts = 10\<close>, \<open>delayMs = 5000\<close>;
  \<open>scope_of\<close> is the scope the loops then run in. The result is the value the promise
  resolves to (\<open>Inl\<close>: it rejects) and the effects of the run.
\<close>

definition scope_of ::
  "network \<Rightarrow> (string \<times> string) list \<Rightarrow>
   string \<Rightarrow> string \<Rightarrow> string option \<Rightarrow> int option \<Rightarrow> int option \<Rightarrow> onboard_scope" where
  "scope_of net hdrs tok tier pid maxAttemptsArg delayMsArg =
     \<lparr> fetch = net,
       ANTIGRAVITY_HEADERS = hdrs,
       token = tok,
       tierId = tier,
       projectId = pid,
       maxAttempts = (case maxAttemptsArg of None \<Rightarrow> 10 | Some m \<Rightarrow> m),
       delayMs = (case delayMsArg of None \<Rightarrow> 5000 | Some d \<Rightarrow> d) \<rparr>"

definition onboardUser ::
  "network \<Rightarrow> string list \<Rightarrow> (string \<times> string) list \<Rightarrow>
   string \<Rightarrow> string \<Rightarrow> string option \<Rightarrow> int option \<Rightarrow> int option \<Rightarrow>
   (js_error + jsval) \<times> history" where
  "onboardUser net ONBOARD_USER_ENDPOINTS hdrs tok tier pid maxAttemptsArg delayMsArg =
     endpoints_loop (scope_of net hdrs tok tier pid maxAttemptsArg delayMsArg)
       ONBOARD_USER_ENDPOINTS []"

text \<open>
  The rest of a run from inside the loops: the attempt loop of \<open>endpoint\<close> is about to test
  its condition at \<open>attempt\<close>, \<open>rest\<close> are the endpoints after it, \<open>h\<close> the effects so far.
\<close>

definition run_from :: "onboard_scope \<Rightarrow> string \<Rightarrow> int \<Rightarrow> string list \<Rightarrow> history \<Rightarrow> (js_error + jsval) \<times> history" where
  "run_from c endpoint attempt rest h =
     (case attempts_loop c endpoint attempt h of
        (Inl e, h') \<Rightarrow> (Inl e, h')
      | (Inr (Some v), h') \<Rightarrow> (Inr v, h')
      | (Inr None, h') \<Rightarrow> endpoints_loop c rest h')"

subsection \<open>Reading a run\<close>

text \<open>
  Vocabulary for the effects of a run. A transport call fails when \<open>fetch\<close> rejects or
  the response is not \<open>ok\<close>. A poll succeeds when the response is \<open>ok\<close> and its body parses
  to a value other than \<open>null\<close>; \<open>managed_id\<close> is then
  \<open>data.response?.cloudaicompanionProject?.id\<close>.
\<close>

definition transport_failed :: "js_error + response \<Rightarrow> bool" where
  "transport_failed r = (case r of Inl e \<Rightarrow> True | Inr resp \<Rightarrow> \<not> ok resp)"

definition managed_id :: "jsval \<Rightarrow> jsval" where
  "managed_id data =
     opt_prop (opt_prop (own_prop data ''response'') ''cloudaicompanionProject'') ''id''"

definition parsed_poll :: "js_error + response \<Rightarrow> jsval option" where
  "parsed_poll r =
     (case r of
        Inl e \<Rightarrow> None
      | Inr resp \<Rightarrow>
          if \<not> ok resp then None
          else (case json_result resp of
                  Inl e \<Rightarrow> None
                | Inr data \<Rightarrow> if nullish data then None else Some data))"

text \<open>
  The value a poll completes the onboarding with, if it does: the managed identifier when
  \<open>done\<close> and the identifier are truthy, else the caller's \<open>projectId\<close> when \<open>done\<close> and
  \<open>projectId\<close> are truthy.
\<close>

definition completion :: "string option \<Rightarrow> js_error + response \<Rightarrow> jsval option" where
  "completion pid r =
     (case parsed_poll r of
        None \<Rightarrow> None
      | Some data \<Rightarrow>
          if truthy (own_prop data ''done'') \<and> truthy (managed_id data)
          then Some (managed_id data)
          else if truthy (own_prop data ''done'') \<and> str_truthy pid
          then Some (str_val pid)
          else None)"

fun completes :: "string option \<Rightarrow> event \<Rightarrow> jsval option" where
  "completes pid (EvFetch req r) = completion pid r"
| "completes pid (EvSleep ms) = None"

fun is_sleep :: "event \<Rightarrow> bool" where
  "is_sleep (EvSleep ms) = True"
| "is_sleep (EvFetch req r) = False"

text \<open>
  The service keeps to the response shape it documents when the identifier of every
  body it sends is a string or is missing.
\<close>

definition string_or_missing :: "jsval \<Rightarrow> bool" where
  "string_or_missing v = (case v of JStr s \<Rightarrow> True | JUndef \<Rightarrow> True | JNull \<Rightarrow> True | _ \<Rightarrow> False)"

definition is_string_or_null :: "jsval \<Rightarrow> bool" where
  "is_string_or_null v = (case v of JStr s \<Rightarrow> True | JNull \<Rightarrow> True | _ \<Rightarrow> False)"

definition sends_string_ids :: "network \<Rightarrow> bool" where
  "sends_string_ids net =
     (\<forall>h req. case parsed_poll (net h req) of
                 None \<Rightarrow> True
               | Some data \<Rightarrow> string_or_missing (managed_id data))"

text \<open>
  What one visit of an endpoint adds to the effects: sleeps and fetches of that endpoint's
  request as the network answered them, not ending in a sleep, none but the last
  completing the onboarding, and the last completing it exactly when the visit returned a
  value. \<open>run_ok\<close> is the same for a run
  over a list of endpoints, which returns \<open>null\<close> when nothing completed.
\<close>

definition visit_ok :: "onboard_scope \<Rightarrow> string \<Rightarrow> jsval option \<Rightarrow> event list \<Rightarrow> bool" where
  "visit_ok c ep res evs =
     ((\<forall>ev\<in>set evs. ev = EvSleep (delayMs c) \<or>
                     (\<exists>h'. ev = EvFetch (onboard_request c ep) (fetch c h' (onboard_request c ep)))) \<and>
      (evs \<noteq> [] \<longrightarrow> \<not> is_sleep (last evs)) \<and>
      (\<forall>ev\<in>set (butlast evs). completes (projectId c) ev = None) \<and>
      (case res of
         None \<Rightarrow> (\<forall>ev\<in>set evs. completes (projectId c) ev = None)
       | Some v \<Rightarrow> evs \<noteq> [] \<and> completes (projectId c) (last evs) = Some v))"

definition run_ok :: "onboard_scope \<Rightarrow> string list \<Rightarrow> jsval \<Rightarrow> event list \<Rightarrow> bool" where
  "run_ok c eps v evs =
     ((\<forall>ev\<in>set evs. ev = EvSleep (delayMs c) \<or>
                     (\<exists>ep\<in>set eps. \<exists>h'.
                         ev = EvFetch (onboard_request c ep) (fetch c h' (onboard_request c ep)))) \<and>
      (evs \<noteq> [] \<longrightarrow> \<not> is_sleep (last evs)) \<and>
      (\<forall>ev\<in>set (butlast evs). completes (projectId c) ev = None) \<and>
      (v = JNull \<and> (\<forall>ev\<in>set evs. completes (projectId c) ev = None) \<or>
       evs \<noteq> [] \<and> completes (projectId c) (last evs) = Some v))"

text \<open>
  The order of the effects. \<open>paced\<close>: after a sleep comes a fetch, and a sleep that follows
  a fetch is followed by a fetch of the same request. \<open>moves_on d\<close>: a failed transport
  call is not followed by a sleep and, when \<open>d\<close> holds, by no later fetch of its request.
\<close>

fun fetch_of :: "request \<Rightarrow> event \<Rightarrow> bool" where
  "fetch_of req (EvFetch req' r) = (req' = req)"
| "fetch_of req (EvSleep ms) = False"

fun paced :: "event list \<Rightarrow> bool" where
  "paced [] = True"
| "paced (EvSleep ms # rest) = (rest \<noteq> [] \<and> \<not> is_sleep (hd rest) \<and> paced rest)"
| "paced (EvFetch req r # rest) =
     ((case rest of
         EvSleep ms # rest' \<Rightarrow> rest' \<noteq> [] \<and> fetch_of req (hd rest')
       | _ \<Rightarrow> True) \<and>
      paced rest)"

fun moves_on :: "bool \<Rightarrow> event list \<Rightarrow> bool" where
  "moves_on d [] = True"
| "moves_on d (EvSleep ms # rest) = moves_on d rest"
| "moves_on d (EvFetch req r # rest) =
     ((transport_failed r \<longrightarrow>
         (rest \<noteq> [] \<longrightarrow> \<not> is_sleep (hd rest)) \<and>
         (d \<longrightarrow> (\<forall>ev\<in>set rest. \<not> fetch_of req ev))) \<and>
      moves_on d rest)"

text \<open>
  Stand-ins for the network: one that gives every call the same response, and one that
  answers the calls in order from a list of outcomes and rejects once the list is used up.
\<close>

definition always_responds :: "response \<Rightarrow> network" where
  "always_responds resp = (\<lambda>h req. Inr resp)"


definition json_response :: "jsval \<Rightarrow> response" where
  "json_response data = \<lparr> ok = True, status = 200, text_result = Inr [], json_result = Inr data \<rparr>"

definition error_response :: "nat \<Rightarrow> response" where
  "error_response code =
     \<lparr> ok = False, status = code, text_result = Inr [],
       json_result = Inl (SyntaxError ''Unexpected end of JSON input'') \<rparr>"

text \<open>
  Response bodies: \<open>{done: true, response: {cloudaicompanionProject: {id: v}}}\<close>,
  \<open>{done: true}\<close> and \<open>{done: false}\<close>.
\<close>

definition done_with_id :: "jsval \<Rightarrow> jsval" where
  "done_with_id v =
     JObj [(''done'', JBool True),
           (''response'', JObj [(''cloudaicompanionProject'', JObj [(''id'', v)])])]"

definition done_without_id :: jsval where
  "done_without_id = JObj [(''done'', JBool True)]"

definition not_done :: jsval where
  "not_done = JObj [(''done'', JBool False)]"

section \<open>Session identifiers: \<open>deriveSessionId\<close>\<close>

text \<open>
  \<open>Date.now().toString()\<close>: the decimal digits of an integer, with a minus sign when it is
  negative (a count of milliseconds is far below the \<open>1e21\<close> where JavaScript switches to
  exponent notation).
\<close>

definition digit_char :: "nat \<Rightarrow> char" where
  "digit_char d = ''0123456789'' ! d"

fun dec_digits :: "nat \<Rightarrow> string" where
  "dec_digits n = (if n < 10 then [digit_char n] else dec_digits (n div 10) @ [digit_char (n mod 10)])"

definition toString :: "int \<Rightarrow> string" where
  "toString i = (if i < 0 then CHR ''-'' # dec_digits (nat (- i)) else dec_digits (nat i))"

text \<open>Reading decimal digits back, to state that the digits of a token are its timestamp.\<close>

definition is_digit :: "char \<Rightarrow> bool" where
  "is_digit ch = (ch \<in> set ''0123456789'')"

definition digit_value :: "char \<Rightarrow> nat" where
  "digit_value ch = of_char ch - 48"

definition dec_value :: "string \<Rightarrow> nat" where
  "dec_value s = foldl (\<lambda>acc ch. 10 * acc + digit_value ch) 0 s"

text \<open>
  What the runtime gives a call of \<open>generateBinaryStyleId\<close>: the string
  \<open>crypto.randomUUID()\<close> returns and the number \<open>Date.now()\<close> returns.
\<close>

record entropy =
  randomUUID :: string
  Date_now :: int

text \<open>
  The canonical text of a UUID, which \<open>crypto.randomUUID()\<close> returns: 36 characters,
  lower-case hexadecimal digits in groups of 8, 4, 4, 4 and 12 with a hyphen between groups.
\<close>

definition hex_digit :: "char \<Rightarrow> bool" where
  "hex_digit ch = (ch \<in> set ''0123456789abcdef'')"

definition canonical_uuid :: "string \<Rightarrow> bool" where
  "canonical_uuid s =
     (length s = 36 \<and>
      list_all hex_digit (take 8 s) \<and> s ! 8 = CHR ''-'' \<and>
      list_all hex_digit (take 4 (drop 9 s)) \<and> s ! 13 = CHR ''-'' \<and>
      list_all hex_digit (take 4 (drop 14 s)) \<and> s ! 18 = CHR ''-'' \<and>
      list_all hex_digit (take 4 (drop 19 s)) \<and> s ! 23 = CHR ''-'' \<and>
      list_all hex_digit (drop 24 s))"

text \<open>Lines 168 to 170.\<close>

definition generateBinaryStyleId :: "entropy \<Rightarrow> string" where
  "generateBinaryStyleId e = randomUUID e @ toString (Date_now e)"

text \<open>
  \<open>runtimeSessionStore\<close>, a \<open>Map\<close> from account e-mail to session identifier, empty when
  the module is loaded.
\<close>

type_synonym session_store = "string \<rightharpoonup> string"

definition initial_store :: session_store where
  "initial_store = Map.empty"

text \<open>
  Lines 144 to 162. The store is passed in and returned; \<open>e\<close> is what the runtime would
  give a call of \<open>generateBinaryStyleId\<close> made by this call. \<open>!accountEmail\<close> holds for
  \<open>undefined\<close>, \<open>null\<close> and the empty string. \<open>anthropicRequest\<close> is not read.
\<close>

definition deriveSessionId ::
  "entropy \<Rightarrow> session_store \<Rightarrow> 'r \<Rightarrow> string option \<Rightarrow> string \<times> session_store" where
  "deriveSessionId e runtimeSessionStore anthropicRequest accountEmail =
     (case accountEmail of
        None \<Rightarrow> (generateBinaryStyleId e, runtimeSessionStore)
      | Some email \<Rightarrow>
          if email = [] then (generateBinaryStyleId e, runtimeSessionStore)
          else (case runtimeSessionStore email of
                  Some sessionId \<Rightarrow> (sessionId, runtimeSessionStore)
                | None \<Rightarrow>
                    let newSessionId = generateBinaryStyleId e
                    in (newSessionId, runtimeSessionStore(email \<mapsto> newSessionId))))"

text \<open>Lines 175 to 177.\<close>

definition clearSessionStore :: "session_store \<Rightarrow> session_store" where
  "clearSessionStore runtimeSessionStore = Map.empty"

text \<open>
  A sequence of calls into the module by one process: the store after them, and the
  identifiers they returned.
\<close>

datatype session_call = Derive entropy "string option" | Clear

fun session_step :: "session_call \<Rightarrow> session_store \<Rightarrow> session_store" where
  "session_step (Derive e accountEmail) st = snd (deriveSessionId e st () accountEmail)"
| "session_step Clear st = clearSessionStore st"

fun session_run :: "session_call list \<Rightarrow> session_store \<Rightarrow> session_store" where
  "session_run [] st = st"
| "session_run (c # cs) st = session_run cs (session_step c st)"

fun is_clear :: "session_call \<Rightarrow> bool" where
  "is_clear Clear = True"
| "is_clear (Derive e a) = False"

section \<open>Properties\<close>

declare attempts_loop.simps [simp del]
declare dec_digits.simps [simp del]

subsection \<open>Values\<close>

lemma truthy_not_nullish: "truthy v \<Longrightarrow> \<not> nullish v"
  by (cases v) auto

subsection \<open>The default tier\<close>

lemma find_default_tier_find:
  "find_default_tier ts =
     Inr (map_option (\<lambda>t. own_prop t ''id'') (List.find (\<lambda>t. truthy (opt_prop t ''isDefault'')) ts))"
  by (induction ts) (auto simp: get_prop_def opt_prop_def split: if_splits)

text \<open>
  Claim C7, as the code has it. For an absent or empty tier list \<open>getDefaultTierId\<close>
  returns \<open>undefined\<close> and raises nothing. For a non-empty list it returns the \<open>id\<close> of
  the first tier whose \<open>isDefault\<close> is truthy, and the \<open>id\<close> of the first tier of the list
  when no tier is flagged. It returns the identifier, not the tier.
\<close>

theorem getDefaultTierId_returns_id:
  "getDefaultTierId None = Inr JUndef \<and>
   getDefaultTierId (Some []) = Inr JUndef \<and>
   (tiers \<noteq> [] \<longrightarrow>
      getDefaultTierId (Some tiers) =
        Inr (case List.find (\<lambda>t. truthy (opt_prop t ''isDefault'')) tiers of
               Some t \<Rightarrow> own_prop t ''id''
             | None \<Rightarrow> opt_prop (hd tiers) ''id''))"
  by (auto simp: getDefaultTierId_def find_default_tier_find hd_conv_nth split: option.splits)

text \<open>
  Claim C7, an instance: of two tiers, the second flagged, the identifier of the second is
  returned.
\<close>

theorem getDefaultTierId_returns_id_witness:
  "[JObj [(''id'', JStr ''A'')], JObj [(''id'', JStr ''B''), (''isDefault'', JBool True)]] \<noteq> [] \<and>
   getDefaultTierId (Some [JObj [(''id'', JStr ''A'')], JObj [(''id'', JStr ''B''), (''isDefault'', JBool True)]])
     = Inr (JStr ''B'')"
  using getDefaultTierId_returns_id
    [of "[JObj [(''id'', JStr ''A'')], JObj [(''id'', JStr ''B''), (''isDefault'', JBool True)]]"]
  by (simp add: opt_prop_def)

text \<open>
  Claim C7 as worded says that the helper returns the element. On a list of one flagged
  tier it returns the string \<open>free-tier\<close>, which is not that tier.
\<close>

theorem getDefaultTierId_not_the_element:
  "getDefaultTierId (Some [JObj [(''id'', JStr ''free-tier''), (''isDefault'', JBool True)]])
     = Inr (JStr ''free-tier'') \<and>
   getDefaultTierId (Some [JObj [(''id'', JStr ''free-tier''), (''isDefault'', JBool True)]])
     \<noteq> Inr (JObj [(''id'', JStr ''free-tier''), (''isDefault'', JBool True)])"
  by (simp add: getDefaultTierId_def opt_prop_def get_prop_def)

subsection \<open>Decimal digits and tokens\<close>

lemma digit_cases: "d < 10 \<Longrightarrow> d = 0 \<or> d = 1 \<or> d = 2 \<or> d = 3 \<or> d = 4 \<or> d = 5 \<or> d = 6 \<or> d = 7 \<or> d = 8 \<or> d = (9::nat)"
  by arith

lemma digit_char_props:
  assumes "d < 10"
  shows "digit_value (digit_char d) = d" and "is_digit (digit_char d)" and "digit_char d \<noteq> CHR ''-''"
  using digit_cases[OF assms] by (auto simp: digit_value_def digit_char_def is_digit_def)

lemma dec_value_snoc: "dec_value (s @ [ch]) = 10 * dec_value s + digit_value ch"
  by (simp add: dec_value_def)

lemma dec_digits_value: "dec_value (dec_digits n) = n"
proof (induction n rule: dec_digits.induct)
  case (1 n)
  show ?case
  proof (cases "n < 10")
    case True
    then show ?thesis by (subst dec_digits.simps) (simp add: dec_value_def digit_char_props)
  next
    case False
    then show ?thesis using 1
      by (subst dec_digits.simps) (simp add: dec_value_snoc digit_char_props)
  qed
qed

lemma dec_digits_all: "list_all is_digit (dec_digits n)"
proof (induction n rule: dec_digits.induct)
  case (1 n)
  then show ?case by (subst dec_digits.simps) (simp add: digit_char_props)
qed

lemma dec_digits_nonempty: "dec_digits n \<noteq> []"
  by (subst dec_digits.simps) simp

lemma dec_digits_hd: "hd (dec_digits n) \<noteq> CHR ''-''"
  using dec_digits_all[of n] dec_digits_nonempty[of n]
  by (cases "dec_digits n") (auto simp: is_digit_def)

lemma dec_digits_inj: "dec_digits m = dec_digits n \<Longrightarrow> m = n"
  by (metis dec_digits_value)

lemma toString_inj: "toString i = toString j \<Longrightarrow> i = j"
proof -
  assume eq: "toString i = toString j"
  consider "i < 0" "j < 0" | "i < 0" "\<not> j < 0" | "\<not> i < 0" "j < 0" | "\<not> i < 0" "\<not> j < 0" by blast
  then show ?thesis
  proof cases
    case 1 then show ?thesis using eq dec_digits_inj[of "nat (- i)" "nat (- j)"] by (simp add: toString_def)
  next
    case 2 then show ?thesis using eq dec_digits_hd[of "nat j"] by (metis list.sel(1) toString_def)
  next
    case 3 then show ?thesis using eq dec_digits_hd[of "nat i"] by (metis list.sel(1) toString_def)
  next
    case 4 then show ?thesis using eq dec_digits_inj[of "nat i" "nat j"] by (simp add: toString_def)
  qed
qed

lemma canonical_uuid_length: "canonical_uuid s \<Longrightarrow> length s = 36"
  by (simp add: canonical_uuid_def)

lemma token_inj:
  assumes "canonical_uuid (randomUUID e)" "canonical_uuid (randomUUID e')"
  shows "generateBinaryStyleId e = generateBinaryStyleId e' \<longleftrightarrow>
         randomUUID e = randomUUID e' \<and> Date_now e = Date_now e'"
  using assms[THEN canonical_uuid_length] toString_inj
  by (auto simp: generateBinaryStyleId_def)

lemma example_token:
  "generateBinaryStyleId \<lparr>randomUUID = ''123e4567-e89b-42d3-a456-426614174000'', Date_now = 1730000000123\<rparr>
     = ''123e4567-e89b-42d3-a456-4266141740001730000000123''"
  by (simp add: generateBinaryStyleId_def toString_def dec_digits.simps digit_char_def)

lemma example_uuids:
  "canonical_uuid ''123e4567-e89b-42d3-a456-426614174000''"
  "canonical_uuid ''9b2f0c1e-7d4a-4e5b-8f6a-0123456789ab''"
  by (simp_all add: canonical_uuid_def hex_digit_def)

subsection \<open>The session store\<close>

lemma derive_keeps_present:
  "st k = Some t \<Longrightarrow> snd (deriveSessionId e st req a) k = Some t"
  by (auto simp: deriveSessionId_def Let_def split: option.splits)

lemma session_run_keeps_present:
  "\<forall>c\<in>set cs. \<not> is_clear c \<Longrightarrow> st k = Some t \<Longrightarrow> session_run cs st k = Some t"
proof (induction cs arbitrary: st)
  case Nil
  then show ?case by simp
next
  case (Cons c cs)
  then show ?case by (cases c) (auto simp: derive_keeps_present)
qed

text \<open>
  Claim C4. For a non-empty account key \<open>k\<close>: the key is absent from the store the module
  starts with; a derive for \<open>k\<close> while it is absent returns a generated token and stores it
  under \<open>k\<close>; a derive for \<open>k\<close> while it is present returns the stored token and leaves the
  store as it is; no derive, for any account, removes or changes the entry of \<open>k\<close>, and a
  derive for another account does not create it; so after a derive for \<open>k\<close>, and any calls
  that are not a reset, a further derive for \<open>k\<close> returns the same token. A reset makes \<open>k\<close>
  absent, and the next derive for \<open>k\<close> is a first one again.
\<close>

theorem session_key_state_machine:
  assumes "k \<noteq> []"
  shows "initial_store k = None \<and>
    (st k = None \<longrightarrow>
       deriveSessionId e st req (Some k) =
         (generateBinaryStyleId e, st(k \<mapsto> generateBinaryStyleId e))) \<and>
    (st k = Some t \<longrightarrow> deriveSessionId e st req (Some k) = (t, st)) \<and>
    (st k = Some t \<longrightarrow> snd (deriveSessionId e st req a) k = Some t) \<and>
    (st k = None \<and> a \<noteq> Some k \<longrightarrow> snd (deriveSessionId e st req a) k = None) \<and>
    ((\<forall>c\<in>set cs. \<not> is_clear c) \<longrightarrow>
       fst (deriveSessionId e' (session_run cs (snd (deriveSessionId e st req (Some k)))) req (Some k))
         = fst (deriveSessionId e st req (Some k))) \<and>
    clearSessionStore st k = None \<and>
    deriveSessionId e (clearSessionStore st) req (Some k) =
      (generateBinaryStyleId e, [k \<mapsto> generateBinaryStyleId e])"
proof -
  have run: "(\<forall>c\<in>set cs. \<not> is_clear c) \<longrightarrow>
       fst (deriveSessionId e' (session_run cs (snd (deriveSessionId e st req (Some k)))) req (Some k))
         = fst (deriveSessionId e st req (Some k))"
  proof
    assume nc: "\<forall>c\<in>set cs. \<not> is_clear c"
    obtain t' where t': "snd (deriveSessionId e st req (Some k)) k = Some t'"
        and fst_t': "fst (deriveSessionId e st req (Some k)) = t'"
      using assms by (cases "st k") (auto simp: deriveSessionId_def Let_def)
    from session_run_keeps_present[of cs "snd (deriveSessionId e st req (Some k))" k t', OF nc t']
    have "session_run cs (snd (deriveSessionId e st req (Some k))) k = Some t'" .
    then show "fst (deriveSessionId e' (session_run cs (snd (deriveSessionId e st req (Some k)))) req (Some k))
         = fst (deriveSessionId e st req (Some k))"
      using assms fst_t' by (simp add: deriveSessionId_def)
  qed
  have rest: "initial_store k = None \<and>
    (st k = None \<longrightarrow>
       deriveSessionId e st req (Some k) =
         (generateBinaryStyleId e, st(k \<mapsto> generateBinaryStyleId e))) \<and>
    (st k = Some t \<longrightarrow> deriveSessionId e st req (Some k) = (t, st)) \<and>
    (st k = Some t \<longrightarrow> snd (deriveSessionId e st req a) k = Some t) \<and>
    (st k = None \<and> a \<noteq> Some k \<longrightarrow> snd (deriveSessionId e st req a) k = None) \<and>
    clearSessionStore st k = None \<and>
    deriveSessionId e (clearSessionStore st) req (Some k) =
      (generateBinaryStyleId e, [k \<mapsto> generateBinaryStyleId e])"
    using assms
    by (auto simp: initial_store_def deriveSessionId_def clearSessionStore_def Let_def
          split: option.splits)
  show ?thesis using run rest by blast
qed

text \<open>
  Claim C4, an instance: a first derive for \<open>a@x.com\<close> on the empty store, a derive on a
  store that holds it, and a derive after a derive for \<open>b@x.com\<close>.
\<close>

theorem session_key_state_machine_witness:
  "''a@x.com'' \<noteq> [] \<and>
   (Map.empty :: session_store) ''a@x.com'' = None \<and>
   deriveSessionId \<lparr>randomUUID = ''123e4567-e89b-42d3-a456-426614174000'', Date_now = 1730000000123\<rparr>
       Map.empty () (Some ''a@x.com'')
     = (''123e4567-e89b-42d3-a456-4266141740001730000000123'',
        [''a@x.com'' \<mapsto> ''123e4567-e89b-42d3-a456-4266141740001730000000123'']) \<and>
   [''a@x.com'' \<mapsto> ''tok''] ''a@x.com'' = Some ''tok'' \<and>
   deriveSessionId \<lparr>randomUUID = ''123e4567-e89b-42d3-a456-426614174000'', Date_now = 1730000000123\<rparr>
       [''a@x.com'' \<mapsto> ''tok''] () (Some ''a@x.com'')
     = (''tok'', [''a@x.com'' \<mapsto> ''tok'']) \<and>
   \<not> is_clear (Derive \<lparr>randomUUID = ''u'', Date_now = 5\<rparr> (Some ''b@x.com'')) \<and>
   fst (deriveSessionId \<lparr>randomUUID = ''v'', Date_now = 9\<rparr>
          (session_run [Derive \<lparr>randomUUID = ''u'', Date_now = 5\<rparr> (Some ''b@x.com'')]
             (snd (deriveSessionId
                \<lparr>randomUUID = ''123e4567-e89b-42d3-a456-426614174000'', Date_now = 1730000000123\<rparr>
                Map.empty () (Some ''a@x.com''))))
          () (Some ''a@x.com''))
     = ''123e4567-e89b-42d3-a456-4266141740001730000000123''"
proof -
  let ?e = "\<lparr>randomUUID = ''123e4567-e89b-42d3-a456-426614174000'', Date_now = 1730000000123\<rparr>"
  let ?cs = "[Derive \<lparr>randomUUID = ''u'', Date_now = 5\<rparr> (Some ''b@x.com'')]"
  have ne: "''a@x.com'' \<noteq> []" by simp
  have nc: "\<forall>c\<in>set ?cs. \<not> is_clear c" by simp
  note A = session_key_state_machine
      [OF ne, where st = Map.empty and e = ?e and req = "()" and cs = ?cs
         and e' = "\<lparr>randomUUID = ''v'', Date_now = 9\<rparr>"]
  note B = session_key_state_machine
      [OF ne, where st = "[''a@x.com'' \<mapsto> ''tok'']" and e = ?e and req = "()" and t = "''tok''"]
  have a1: "deriveSessionId ?e Map.empty () (Some ''a@x.com'')
      = (generateBinaryStyleId ?e, [''a@x.com'' \<mapsto> generateBinaryStyleId ?e])"
    using A by blast
  have a2: "fst (deriveSessionId \<lparr>randomUUID = ''v'', Date_now = 9\<rparr>
          (session_run ?cs (snd (deriveSessionId ?e Map.empty () (Some ''a@x.com''))))
          () (Some ''a@x.com''))
     = fst (deriveSessionId ?e Map.empty () (Some ''a@x.com''))"
    using A nc by blast
  have b1: "deriveSessionId ?e [''a@x.com'' \<mapsto> ''tok''] () (Some ''a@x.com'')
      = (''tok'', [''a@x.com'' \<mapsto> ''tok''])"
    using B by simp
  show ?thesis
    using a2 unfolding a1 b1 example_token by simp
qed

text \<open>
  Claim C5. A generated token is the text \<open>crypto.randomUUID()\<close> returned followed by the
  decimal text of what \<open>Date.now()\<close> returned, with nothing between them, and this is the
  token \<open>deriveSessionId\<close> returns whenever it generates one (no account, or an account
  not yet in the store). When the identifier is a canonical UUID text and the clock is
  not negative, the first 36 characters of the token are the identifier, and the rest is a
  non-empty run of decimal digits whose value is the timestamp. That the identifier is
  random and of 128 bits is the contract of the runtime's \<open>randomUUID\<close>.
\<close>

theorem generated_token_shape:
  "generateBinaryStyleId e = randomUUID e @ toString (Date_now e) \<and>
   (\<not> str_truthy accountEmail \<or> (\<exists>k. accountEmail = Some k \<and> st k = None) \<longrightarrow>
      fst (deriveSessionId e st req accountEmail) = randomUUID e @ toString (Date_now e)) \<and>
   (canonical_uuid (randomUUID e) \<and> 0 \<le> Date_now e \<longrightarrow>
      take 36 (generateBinaryStyleId e) = randomUUID e \<and>
      drop 36 (generateBinaryStyleId e) = toString (Date_now e) \<and>
      drop 36 (generateBinaryStyleId e) \<noteq> [] \<and>
      list_all is_digit (drop 36 (generateBinaryStyleId e)) \<and>
      int (dec_value (drop 36 (generateBinaryStyleId e))) = Date_now e)"
proof (intro conjI impI)
  show "generateBinaryStyleId e = randomUUID e @ toString (Date_now e)"
    by (simp add: generateBinaryStyleId_def)
next
  assume "\<not> str_truthy accountEmail \<or> (\<exists>k. accountEmail = Some k \<and> st k = None)"
  then show "fst (deriveSessionId e st req accountEmail) = randomUUID e @ toString (Date_now e)"
    by (auto simp: deriveSessionId_def str_truthy_def generateBinaryStyleId_def Let_def
          split: option.splits)
next
  assume a: "canonical_uuid (randomUUID e) \<and> 0 \<le> Date_now e"
  then have len: "length (randomUUID e) = 36" by (simp add: canonical_uuid_length)
  have ts: "toString (Date_now e) = dec_digits (nat (Date_now e))"
    using a by (simp add: toString_def)
  show "take 36 (generateBinaryStyleId e) = randomUUID e"
    using len by (simp add: generateBinaryStyleId_def)
  show d: "drop 36 (generateBinaryStyleId e) = toString (Date_now e)"
    using len by (simp add: generateBinaryStyleId_def)
  show "drop 36 (generateBinaryStyleId e) \<noteq> []"
    unfolding d ts by (rule dec_digits_nonempty)
  show "list_all is_digit (drop 36 (generateBinaryStyleId e))"
    unfolding d ts by (rule dec_digits_all)
  show "int (dec_value (drop 36 (generateBinaryStyleId e))) = Date_now e"
    unfolding d ts using a by (simp add: dec_digits_value)
qed

text \<open>Claim C5, an instance: one identifier and one timestamp.\<close>

theorem generated_token_shape_witness:
  "canonical_uuid ''123e4567-e89b-42d3-a456-426614174000'' \<and> (0::int) \<le> 1730000000123 \<and>
   \<not> str_truthy None \<and>
   generateBinaryStyleId \<lparr>randomUUID = ''123e4567-e89b-42d3-a456-426614174000'', Date_now = 1730000000123\<rparr>
     = ''123e4567-e89b-42d3-a456-4266141740001730000000123'' \<and>
   fst (deriveSessionId \<lparr>randomUUID = ''123e4567-e89b-42d3-a456-426614174000'', Date_now = 1730000000123\<rparr>
          Map.empty () None)
     = ''123e4567-e89b-42d3-a456-4266141740001730000000123'' \<and>
   drop 36 ''123e4567-e89b-42d3-a456-4266141740001730000000123'' = ''1730000000123'' \<and>
   list_all is_digit ''1730000000123'' \<and>
   int (dec_value ''1730000000123'') = 1730000000123"
proof -
  let ?e = "\<lparr>randomUUID = ''123e4567-e89b-42d3-a456-426614174000'', Date_now = 1730000000123\<rparr>"
  have h: "canonical_uuid (randomUUID ?e) \<and> 0 \<le> Date_now ?e"
    using example_uuids(1) by simp
  have n: "\<not> str_truthy None" by (simp add: str_truthy_def)
  note T = generated_token_shape [where e = ?e and accountEmail = None and st = Map.empty and req = "()"]
  have d: "drop 36 ''123e4567-e89b-42d3-a456-4266141740001730000000123'' = ''1730000000123''"
    by simp
  have 1: "fst (deriveSessionId ?e Map.empty () None) = randomUUID ?e @ toString (Date_now ?e)"
    using T n by blast
  have 2: "list_all is_digit (drop 36 (generateBinaryStyleId ?e))"
    using T h by blast
  have 3: "int (dec_value (drop 36 (generateBinaryStyleId ?e))) = Date_now ?e"
    using T h by blast
  have 4: "generateBinaryStyleId ?e = randomUUID ?e @ toString (Date_now ?e)"
    using T by blast
  show ?thesis
    using 1 2 3 h n unfolding 4[symmetric] example_token d by simp
qed

text \<open>
  Claim C8. A derive with an absent or empty account returns a generated token and the
  store unchanged, whatever the store holds. In two such calls, one after the other, the
  tokens differ when the runtime gave the two calls different canonical identifiers.
\<close>

theorem deriveSessionId_without_account:
  assumes "\<not> str_truthy a1" and "\<not> str_truthy a2"
  shows "deriveSessionId e1 st req a1 = (generateBinaryStyleId e1, st) \<and>
    deriveSessionId e2 (snd (deriveSessionId e1 st req a1)) req a2 = (generateBinaryStyleId e2, st) \<and>
    (canonical_uuid (randomUUID e1) \<and> canonical_uuid (randomUUID e2) \<and>
     randomUUID e1 \<noteq> randomUUID e2 \<longrightarrow>
       fst (deriveSessionId e1 st req a1)
         \<noteq> fst (deriveSessionId e2 (snd (deriveSessionId e1 st req a1)) req a2))"
proof -
  have 1: "deriveSessionId e1 st req a1 = (generateBinaryStyleId e1, st)"
    using assms(1) by (auto simp: deriveSessionId_def str_truthy_def split: option.splits)
  have 2: "deriveSessionId e2 st req a2 = (generateBinaryStyleId e2, st)"
    using assms(2) by (auto simp: deriveSessionId_def str_truthy_def split: option.splits)
  show ?thesis using 1 2 token_inj[of e1 e2] by auto
qed

text \<open>Claim C8, an instance: \<open>undefined\<close>, then the empty string, on a store of one entry.\<close>

theorem deriveSessionId_without_account_witness:
  "\<not> str_truthy None \<and> \<not> str_truthy (Some []) \<and>
   canonical_uuid ''123e4567-e89b-42d3-a456-426614174000'' \<and>
   canonical_uuid ''9b2f0c1e-7d4a-4e5b-8f6a-0123456789ab'' \<and>
   ''123e4567-e89b-42d3-a456-426614174000'' \<noteq> ''9b2f0c1e-7d4a-4e5b-8f6a-0123456789ab'' \<and>
   deriveSessionId \<lparr>randomUUID = ''123e4567-e89b-42d3-a456-426614174000'', Date_now = 1730000000123\<rparr>
       [''a@x.com'' \<mapsto> ''tok''] () None
     = (''123e4567-e89b-42d3-a456-4266141740001730000000123'', [''a@x.com'' \<mapsto> ''tok'']) \<and>
   fst (deriveSessionId \<lparr>randomUUID = ''123e4567-e89b-42d3-a456-426614174000'', Date_now = 1730000000123\<rparr>
          [''a@x.com'' \<mapsto> ''tok''] () None)
     \<noteq> fst (deriveSessionId \<lparr>randomUUID = ''9b2f0c1e-7d4a-4e5b-8f6a-0123456789ab'', Date_now = 1730000000123\<rparr>
          (snd (deriveSessionId
             \<lparr>randomUUID = ''123e4567-e89b-42d3-a456-426614174000'', Date_now = 1730000000123\<rparr>
             [''a@x.com'' \<mapsto> ''tok''] () None))
          () (Some []))"
proof -
  let ?e1 = "\<lparr>randomUUID = ''123e4567-e89b-42d3-a456-426614174000'', Date_now = 1730000000123\<rparr>"
  let ?e2 = "\<lparr>randomUUID = ''9b2f0c1e-7d4a-4e5b-8f6a-0123456789ab'', Date_now = 1730000000123\<rparr>"
  have n1: "\<not> str_truthy None" and n2: "\<not> str_truthy (Some [])"
    by (simp_all add: str_truthy_def)
  have u: "canonical_uuid (randomUUID ?e1) \<and> canonical_uuid (randomUUID ?e2) \<and>
     randomUUID ?e1 \<noteq> randomUUID ?e2"
    using example_uuids by simp
  note T = deriveSessionId_without_account
      [OF n1 n2, where ?e1.0 = ?e1 and ?e2.0 = ?e2 and st = "[''a@x.com'' \<mapsto> ''tok'']" and req = "()"]
  have 1: "deriveSessionId ?e1 [''a@x.com'' \<mapsto> ''tok''] () None
     = (generateBinaryStyleId ?e1, [''a@x.com'' \<mapsto> ''tok''])"
    using T by blast
  have 2: "fst (deriveSessionId ?e1 [''a@x.com'' \<mapsto> ''tok''] () None)
     \<noteq> fst (deriveSessionId ?e2 (snd (deriveSessionId ?e1 [''a@x.com'' \<mapsto> ''tok''] () None)) () (Some []))"
    using T u by blast
  show ?thesis
    using 2 n1 n2 u unfolding 1 example_token by simp
qed

text \<open>
  Claim C10. A derive for a non-empty account \<open>k\<close> leaves the entry of every other account
  as it was; when \<open>k\<close> was absent the keys of the store afterwards are those before and
  \<open>k\<close>; when \<open>k\<close> was present the store afterwards is the store before. A derive without
  an account leaves every entry as it was, too.
\<close>

theorem deriveSessionId_frame:
  assumes "k \<noteq> []"
  shows "(\<forall>k'. k' \<noteq> k \<longrightarrow> snd (deriveSessionId e st req (Some k)) k' = st k') \<and>
    (st k = None \<longrightarrow> dom (snd (deriveSessionId e st req (Some k))) = insert k (dom st)) \<and>
    (st k \<noteq> None \<longrightarrow> snd (deriveSessionId e st req (Some k)) = st) \<and>
    (\<forall>k'. k' \<noteq> k \<longrightarrow> snd (deriveSessionId e st req None) k' = st k'
                      \<and> snd (deriveSessionId e st req (Some [])) k' = st k')"
  using assms by (auto simp: deriveSessionId_def Let_def split: option.splits)

text \<open>
  Claim C10, an instance: a derive for \<open>a@x.com\<close> on a store that holds \<open>b@x.com\<close>, and
  on a store that holds \<open>a@x.com\<close>.
\<close>

theorem deriveSessionId_frame_witness:
  "''a@x.com'' \<noteq> [] \<and> ''b@x.com'' \<noteq> ''a@x.com'' \<and>
   [''b@x.com'' \<mapsto> ''tok''] ''a@x.com'' = None \<and>
   snd (deriveSessionId \<lparr>randomUUID = ''u'', Date_now = 5\<rparr> [''b@x.com'' \<mapsto> ''tok''] ()
          (Some ''a@x.com'')) ''b@x.com'' = Some ''tok'' \<and>
   dom (snd (deriveSessionId \<lparr>randomUUID = ''u'', Date_now = 5\<rparr> [''b@x.com'' \<mapsto> ''tok''] ()
          (Some ''a@x.com''))) = {''a@x.com'', ''b@x.com''} \<and>
   [''a@x.com'' \<mapsto> ''tok''] ''a@x.com'' \<noteq> None \<and>
   snd (deriveSessionId \<lparr>randomUUID = ''u'', Date_now = 5\<rparr> [''a@x.com'' \<mapsto> ''tok''] ()
          (Some ''a@x.com'')) = [''a@x.com'' \<mapsto> ''tok'']"
proof -
  have ne: "''a@x.com'' \<noteq> []" by simp
  note A = deriveSessionId_frame
      [OF ne, where e = "\<lparr>randomUUID = ''u'', Date_now = 5\<rparr>" and st = "[''b@x.com'' \<mapsto> ''tok'']"
         and req = "()"]
  note B = deriveSessionId_frame
      [OF ne, where e = "\<lparr>randomUUID = ''u'', Date_now = 5\<rparr>" and st = "[''a@x.com'' \<mapsto> ''tok'']"
         and req = "()"]
  have a1: "snd (deriveSessionId \<lparr>randomUUID = ''u'', Date_now = 5\<rparr> [''b@x.com'' \<mapsto> ''tok''] ()
          (Some ''a@x.com'')) ''b@x.com'' = Some ''tok''"
    using A by simp
  have a2: "dom (snd (deriveSessionId \<lparr>randomUUID = ''u'', Date_now = 5\<rparr> [''b@x.com'' \<mapsto> ''tok''] ()
          (Some ''a@x.com''))) = {''a@x.com'', ''b@x.com''}"
    using A by simp
  have b1: "snd (deriveSessionId \<lparr>randomUUID = ''u'', Date_now = 5\<rparr> [''a@x.com'' \<mapsto> ''tok''] ()
          (Some ''a@x.com'')) = [''a@x.com'' \<mapsto> ''tok'']"
    using B by simp
  show ?thesis using a1 a2 b1 by simp
qed

subsection \<open>One attempt and one visit of an endpoint\<close>

lemma attempt_body_eq:
  "attempt_body c ep a h =
     (let r = fetch c h (onboard_request c ep);
          h1 = h @ [EvFetch (onboard_request c ep) r]
      in case completion (projectId c) r of
           Some v \<Rightarrow> (Inr (Return v), h1)
         | None \<Rightarrow>
             (case parsed_poll r of
                None \<Rightarrow> (Inr Break, h1)
              | Some data \<Rightarrow>
                  (Inr Normal, if a < maxAttempts c - 1 then h1 @ [EvSleep (delayMs c)] else h1)))"
  by (auto simp: attempt_body_def try_block_def completion_def parsed_poll_def get_prop_def
        managed_id_def sleep_def Let_def split: sum.splits)

lemma attempts_loop_unfold:
  "attempts_loop c ep a h =
     (if a < maxAttempts c then
        (let r = fetch c h (onboard_request c ep);
             h1 = h @ [EvFetch (onboard_request c ep) r]
         in case completion (projectId c) r of
              Some v \<Rightarrow> (Inr (Some v), h1)
            | None \<Rightarrow>
                (case parsed_poll r of
                   None \<Rightarrow> (Inr None, h1)
                 | Some data \<Rightarrow>
                     attempts_loop c ep (a + 1)
                       (if a < maxAttempts c - 1 then h1 @ [EvSleep (delayMs c)] else h1)))
      else (Inr None, h))"
  by (subst attempts_loop.simps) (simp add: attempt_body_eq Let_def split: option.splits)

lemma visit_ok_single:
  "(case res of None \<Rightarrow> completion (projectId c) (fetch c h (onboard_request c ep)) = None
    | Some v \<Rightarrow> completion (projectId c) (fetch c h (onboard_request c ep)) = Some v)
   \<Longrightarrow> visit_ok c ep res [EvFetch (onboard_request c ep) (fetch c h (onboard_request c ep))]"
  by (auto simp: visit_ok_def split: option.splits)

lemma visit_ok_extend:
  assumes "visit_ok c ep res evs" and "evs \<noteq> []"
    and "\<forall>ev\<in>set pre. (ev = EvSleep (delayMs c) \<or>
            (\<exists>h'. ev = EvFetch (onboard_request c ep) (fetch c h' (onboard_request c ep)))) \<and>
           completes (projectId c) ev = None"
  shows "visit_ok c ep res (pre @ evs)"
  using assms by (auto simp: visit_ok_def butlast_append split: option.splits)

lemma attempts_loop_visit:
  "\<exists>res evs. attempts_loop c ep a h = (Inr res, h @ evs) \<and> visit_ok c ep res evs \<and>
     (a < maxAttempts c \<longrightarrow> evs \<noteq> []) \<and> (evs = [] \<longrightarrow> res = None)"
proof (induction c ep a h rule: attempts_loop.induct)
  case (1 c ep a h)
  let ?r = "fetch c h (onboard_request c ep)"
  let ?ev = "EvFetch (onboard_request c ep) ?r"
  show ?case
  proof (cases "a < maxAttempts c")
    case False
    then have "attempts_loop c ep a h = (Inr None, h @ [])"
      by (subst attempts_loop_unfold) simp
    moreover have "visit_ok c ep None []" by (simp add: visit_ok_def)
    ultimately show ?thesis using False by blast
  next
    case True
    show ?thesis
    proof (cases "completion (projectId c) ?r")
      case (Some v)
      then have "attempts_loop c ep a h = (Inr (Some v), h @ [?ev])"
        using True by (subst attempts_loop_unfold) (simp add: Let_def)
      moreover have "visit_ok c ep (Some v) [?ev]"
        using Some by (intro visit_ok_single) simp
      ultimately show ?thesis by blast
    next
      case None
      show ?thesis
      proof (cases "parsed_poll ?r")
        case N2: None
        then have "attempts_loop c ep a h = (Inr None, h @ [?ev])"
          using True None by (subst attempts_loop_unfold) (simp add: Let_def)
        moreover have "visit_ok c ep None [?ev]"
          using None by (intro visit_ok_single) simp
        ultimately show ?thesis by blast
      next
        case (Some data)
        show ?thesis
        proof (cases "a < maxAttempts c - 1")
          case last: False
          have body: "attempt_body c ep a h = (Inr Normal, h @ [?ev])"
            using None Some last by (simp add: attempt_body_eq Let_def)
          have stop: "\<not> a + 1 < maxAttempts c" using last by simp
          have "attempts_loop c ep a h = attempts_loop c ep (a + 1) (h @ [?ev])"
            using True None Some last by (subst attempts_loop_unfold) (simp add: Let_def)
          also have "\<dots> = (Inr None, h @ [?ev])"
            using stop by (subst attempts_loop_unfold) simp
          finally have "attempts_loop c ep a h = (Inr None, h @ [?ev])" .
          moreover have "visit_ok c ep None [?ev]"
            using None by (intro visit_ok_single) simp
          ultimately show ?thesis by blast
        next
          case more: True
          let ?pre = "[?ev, EvSleep (delayMs c)]"
          have body: "attempt_body c ep a h = (Inr Normal, h @ ?pre)"
            using None Some more by (simp add: attempt_body_eq Let_def)
          have step: "attempts_loop c ep a h = attempts_loop c ep (a + 1) (h @ ?pre)"
            using True None Some more by (subst attempts_loop_unfold) (simp add: Let_def)
          from "1.IH"[OF True body[symmetric] refl refl]
          obtain res evs where
            rec: "attempts_loop c ep (a + 1) (h @ ?pre) = (Inr res, (h @ ?pre) @ evs)"
            and ok: "visit_ok c ep res evs"
            and ne: "a + 1 < maxAttempts c \<longrightarrow> evs \<noteq> []"
            by blast
          have ne': "evs \<noteq> []" using ne more by simp
          have "visit_ok c ep res (?pre @ evs)"
            using ok ne' None by (intro visit_ok_extend) auto
          moreover have "attempts_loop c ep a h = (Inr res, h @ (?pre @ evs))"
            using step rec by simp
          ultimately show ?thesis using ne' by blast
        qed
      qed
    qed
  qed
qed

subsection \<open>A whole run\<close>

lemma endpoints_loop_run:
  "\<exists>v evs. endpoints_loop c eps h = (Inr v, h @ evs) \<and> run_ok c eps v evs"
proof (induction eps arbitrary: h)
  case Nil
  have "endpoints_loop c [] h = (Inr JNull, h @ [])" by simp
  moreover have "run_ok c [] JNull []" by (simp add: run_ok_def)
  ultimately show ?case by blast
next
  case (Cons ep rest)
  obtain res evs1 where
    v1: "attempts_loop c ep 0 h = (Inr res, h @ evs1)" and ok1: "visit_ok c ep res evs1"
    and e1: "evs1 = [] \<longrightarrow> res = None"
    using attempts_loop_visit[of c ep 0 h] by blast
  show ?case
  proof (cases res)
    case (Some v)
    then have "endpoints_loop c (ep # rest) h = (Inr v, h @ evs1)"
      using v1 by simp
    moreover have "run_ok c (ep # rest) v evs1"
      using ok1 Some by (auto simp: visit_ok_def run_ok_def)
    ultimately show ?thesis by blast
  next
    case None
    obtain v evs2 where
      v2: "endpoints_loop c rest (h @ evs1) = (Inr v, (h @ evs1) @ evs2)"
      and ok2: "run_ok c rest v evs2"
      using Cons.IH[of "h @ evs1"] by blast
    have eq: "endpoints_loop c (ep # rest) h = (Inr v, h @ (evs1 @ evs2))"
      using v1 v2 None by simp
    have quiet1: "\<forall>ev\<in>set evs1. completes (projectId c) ev = None"
      using ok1 None by (simp add: visit_ok_def)
    have "run_ok c (ep # rest) v (evs1 @ evs2)"
    proof (cases "evs2 = []")
      case True
      then show ?thesis using ok1 ok2 quiet1 None
        by (auto simp: visit_ok_def run_ok_def)
    next
      case False
      then show ?thesis using ok1 ok2 quiet1
        by (auto simp: visit_ok_def run_ok_def butlast_append)
    qed
    then show ?thesis using eq by blast
  qed
qed

lemma onboardUser_run:
  "\<exists>v tr. onboardUser net eps hdrs tok tier pid ma dm = (Inr v, tr) \<and>
     run_ok (scope_of net hdrs tok tier pid ma dm) eps v tr"
  using endpoints_loop_run[of "scope_of net hdrs tok tier pid ma dm" eps "[]"]
  by (simp add: onboardUser_def)

lemma scope_of_simps [simp]:
  "fetch (scope_of net hdrs tok tier pid ma dm) = net"
  "ANTIGRAVITY_HEADERS (scope_of net hdrs tok tier pid ma dm) = hdrs"
  "token (scope_of net hdrs tok tier pid ma dm) = tok"
  "tierId (scope_of net hdrs tok tier pid ma dm) = tier"
  "projectId (scope_of net hdrs tok tier pid ma dm) = pid"
  "maxAttempts (scope_of net hdrs tok tier pid ma dm) = (case ma of None \<Rightarrow> 10 | Some m \<Rightarrow> m)"
  "delayMs (scope_of net hdrs tok tier pid ma dm) = (case dm of None \<Rightarrow> 5000 | Some d \<Rightarrow> d)"
  by (simp_all add: scope_of_def)

lemma truthy_prop_not_nullish: "truthy (own_prop data k) \<Longrightarrow> \<not> nullish data"
  by (cases data) auto

lemma completion_done:
  assumes "ok resp" "json_result resp = Inr data" "truthy (own_prop data ''done'')"
  shows "completion pid (Inr resp) =
     (if truthy (managed_id data) then Some (managed_id data)
      else if str_truthy pid then Some (str_val pid) else None)"
  using assms truthy_prop_not_nullish[OF assms(3)]
  by (simp add: completion_def parsed_poll_def)

lemma transport_failed_no_poll: "transport_failed r \<Longrightarrow> parsed_poll r = None"
  by (auto simp: transport_failed_def parsed_poll_def split: sum.splits)


lemma endpoints_loop_Cons_run_from:
  "endpoints_loop c (endpoint # rest) h = run_from c endpoint 0 rest h"
  by (simp add: run_from_def)

lemma run_from_pending:
  assumes "a < maxAttempts c"
    and "parsed_poll (fetch c h (onboard_request c ep)) = Some data"
    and "completion (projectId c) (fetch c h (onboard_request c ep)) = None"
  shows "run_from c ep a rest h =
     run_from c ep (a + 1) rest
       (if a < maxAttempts c - 1
        then h @ [EvFetch (onboard_request c ep) (fetch c h (onboard_request c ep)),
                  EvSleep (delayMs c)]
        else h @ [EvFetch (onboard_request c ep) (fetch c h (onboard_request c ep))])"
proof -
  have "attempts_loop c ep a h =
     attempts_loop c ep (a + 1)
       (if a < maxAttempts c - 1
        then h @ [EvFetch (onboard_request c ep) (fetch c h (onboard_request c ep)),
                  EvSleep (delayMs c)]
        else h @ [EvFetch (onboard_request c ep) (fetch c h (onboard_request c ep))])"
    using assms by (subst attempts_loop_unfold) (simp add: Let_def)
  then show ?thesis by (simp add: run_from_def)
qed

lemma run_from_exhausted:
  "\<not> a < maxAttempts c \<Longrightarrow> run_from c ep a rest h = endpoints_loop c rest h"
  by (simp add: run_from_def attempts_loop_unfold)

lemma last_completes_cases:
  assumes "completes pid ev = Some v"
  shows "\<exists>req resp data. ev = EvFetch req (Inr resp) \<and> parsed_poll (Inr resp) = Some data \<and>
           json_result resp = Inr data \<and>
           (truthy v \<and> v = managed_id data \<or> str_truthy pid \<and> v = str_val pid)"
proof (cases ev)
  case (EvFetch req r)
  then have c: "completion pid r = Some v" using assms by simp
  then obtain data where pp: "parsed_poll r = Some data"
    by (auto simp: completion_def split: option.splits)
  then obtain resp where r: "r = Inr resp" and j: "json_result resp = Inr data"
    by (auto simp: parsed_poll_def split: sum.splits if_splits)
  have "truthy v \<and> v = managed_id data \<or> str_truthy pid \<and> v = str_val pid"
    using c pp by (auto simp: completion_def split: if_splits)
  then show ?thesis using EvFetch r j pp by blast
next
  case (EvSleep ms)
  then show ?thesis using assms by simp
qed

lemma str_truthy_val: "str_truthy pid \<Longrightarrow> \<exists>s. str_val pid = JStr s \<and> s \<noteq> []"
  by (auto simp: str_truthy_def str_val_def split: option.splits)

lemma string_id: "string_or_missing v \<Longrightarrow> truthy v \<Longrightarrow> \<exists>s. v = JStr s"
  by (cases v) (auto simp: string_or_missing_def)

subsection \<open>The order of the effects\<close>

lemma paced_append:
  "paced xs \<Longrightarrow> paced ys \<Longrightarrow> (xs \<noteq> [] \<longrightarrow> \<not> is_sleep (last xs)) \<Longrightarrow>
   (ys \<noteq> [] \<longrightarrow> \<not> is_sleep (hd ys)) \<Longrightarrow> paced (xs @ ys)"
proof (induction xs rule: paced.induct)
  case 1
  then show ?case by simp
next
  case (2 ms rest)
  then show ?case by auto
next
  case (3 req r rest)
  show ?case
  proof (cases rest)
    case Nil
    then show ?thesis using 3 by (cases ys) (auto split: event.splits list.splits)
  next
    case (Cons e rest')
    then show ?thesis using 3 by (cases e) (auto split: event.splits list.splits)
  qed
qed

lemma moves_on_append:
  "moves_on d xs \<Longrightarrow> moves_on d ys \<Longrightarrow> (ys \<noteq> [] \<longrightarrow> \<not> is_sleep (hd ys)) \<Longrightarrow>
   (d \<longrightarrow> (\<forall>req r. EvFetch req r \<in> set xs \<longrightarrow> (\<forall>ev\<in>set ys. \<not> fetch_of req ev))) \<Longrightarrow>
   moves_on d (xs @ ys)"
proof (induction d xs rule: moves_on.induct)
  case (1 d)
  then show ?case by simp
next
  case (2 d ms rest)
  then show ?case by auto
next
  case (3 d req r rest)
  then show ?case by (cases rest) auto
qed

lemma moves_on_mono: "(d' \<longrightarrow> d) \<Longrightarrow> moves_on d xs \<Longrightarrow> moves_on d' xs"
  by (induction d xs rule: moves_on.induct) auto

lemma attempts_loop_order:
  "attempts_loop c ep a h = (res, hh) \<Longrightarrow>
   \<exists>evs. hh = h @ evs \<and> paced evs \<and> moves_on True evs \<and>
     (evs \<noteq> [] \<longrightarrow> fetch_of (onboard_request c ep) (hd evs)) \<and>
     (a < maxAttempts c \<longrightarrow> evs \<noteq> [])"
proof (induction c ep a h arbitrary: res hh rule: attempts_loop.induct)
  case (1 c ep a h)
  let ?r = "fetch c h (onboard_request c ep)"
  let ?ev = "EvFetch (onboard_request c ep) ?r"
  have single: "paced [?ev] \<and> moves_on True [?ev] \<and>
      ([?ev] \<noteq> [] \<longrightarrow> fetch_of (onboard_request c ep) (hd [?ev])) \<and> [?ev] \<noteq> []"
    by simp
  show ?case
  proof (cases "a < maxAttempts c")
    case False
    then have "hh = h @ []" using "1.prems" by (subst (asm) attempts_loop_unfold) simp
    then show ?thesis using False by (intro exI[of _ "[]"]) simp
  next
    case True
    show ?thesis
    proof (cases "completion (projectId c) ?r")
      case (Some v)
      then have "hh = h @ [?ev]"
        using True "1.prems" by (subst (asm) attempts_loop_unfold) (simp add: Let_def)
      then show ?thesis using single by blast
    next
      case None
      show ?thesis
      proof (cases "parsed_poll ?r")
        case N2: None
        then have "hh = h @ [?ev]"
          using True None "1.prems" by (subst (asm) attempts_loop_unfold) (simp add: Let_def)
        then show ?thesis using single by blast
      next
        case (Some data)
        show ?thesis
        proof (cases "a < maxAttempts c - 1")
          case last: False
          have stop: "\<not> a + 1 < maxAttempts c" using last by simp
          have "attempts_loop c ep a h = attempts_loop c ep (a + 1) (h @ [?ev])"
            using True None Some last by (subst attempts_loop_unfold) (simp add: Let_def)
          also have "\<dots> = (Inr None, h @ [?ev])"
            using stop by (subst attempts_loop_unfold) simp
          finally have "hh = h @ [?ev]" using "1.prems" by simp
          then show ?thesis using single by blast
        next
          case more: True
          let ?pre = "[?ev, EvSleep (delayMs c)]"
          have body: "attempt_body c ep a h = (Inr Normal, h @ ?pre)"
            using None Some more by (simp add: attempt_body_eq Let_def)
          have step: "attempts_loop c ep a h = attempts_loop c ep (a + 1) (h @ ?pre)"
            using True None Some more by (subst attempts_loop_unfold) (simp add: Let_def)
          then have rec: "attempts_loop c ep (a + 1) (h @ ?pre) = (res, hh)"
            using "1.prems" by simp
          from "1.IH"[OF True body[symmetric] refl refl rec]
          obtain evs where hh: "hh = (h @ ?pre) @ evs" and p: "paced evs"
            and m: "moves_on True evs"
            and hd: "evs \<noteq> [] \<longrightarrow> fetch_of (onboard_request c ep) (hd evs)"
            and ne: "a + 1 < maxAttempts c \<longrightarrow> evs \<noteq> []"
            by blast
          have ne': "evs \<noteq> []" using ne more by simp
          have nf: "\<not> transport_failed ?r"
            using Some transport_failed_no_poll by fastforce
          have hdns: "\<not> is_sleep (hd evs)"
            using hd ne' by (cases "hd evs") auto
          have "paced (?pre @ evs)" using p hd ne' hdns by simp
          moreover have "moves_on True (?pre @ evs)" using m nf by simp
          moreover have "hh = h @ (?pre @ evs)" using hh by simp
          ultimately show ?thesis by (intro exI[of _ "?pre @ evs"]) simp
        qed
      qed
    qed
  qed
qed

lemma onboard_request_inj: "onboard_request c ep = onboard_request c ep' \<Longrightarrow> ep = ep'"
  by (simp add: onboard_request_def)

lemma endpoints_loop_order:
  "endpoints_loop c eps h = (res, hh) \<Longrightarrow>
   \<exists>evs. hh = h @ evs \<and> paced evs \<and> moves_on (distinct eps) evs \<and>
     (evs \<noteq> [] \<longrightarrow> \<not> is_sleep (hd evs))"
proof (induction eps arbitrary: h res hh)
  case Nil
  then show ?case by (intro exI[of _ "[]"]) simp
next
  case (Cons ep rest)
  obtain r1 evs1 where
    v1: "attempts_loop c ep 0 h = (Inr r1, h @ evs1)" and ok1: "visit_ok c ep r1 evs1"
    using attempts_loop_visit[of c ep 0 h] by blast
  obtain evs1' where e1': "h @ evs1 = h @ evs1'" and p1: "paced evs1'"
    and m1: "moves_on True evs1'"
    and hd1: "evs1' \<noteq> [] \<longrightarrow> fetch_of (onboard_request c ep) (hd evs1')"
    using attempts_loop_order[OF v1] by blast
  have same: "evs1' = evs1" using e1' by simp
  have hd1s: "evs1 \<noteq> [] \<longrightarrow> \<not> is_sleep (hd evs1)"
    using hd1 same by (cases "hd evs1") auto
  show ?case
  proof (cases r1)
    case (Some v)
    then have "hh = h @ evs1" using v1 Cons.prems by simp
    then show ?thesis using p1 m1 hd1s same moves_on_mono[of "distinct (ep # rest)" True evs1] by auto
  next
    case None
    then have rec: "endpoints_loop c rest (h @ evs1) = (res, hh)"
      using v1 Cons.prems by simp
    from Cons.IH[OF rec] obtain evs2 where
      hh: "hh = (h @ evs1) @ evs2" and p2: "paced evs2"
      and m2: "moves_on (distinct rest) evs2"
      and hd2: "evs2 \<noteq> [] \<longrightarrow> \<not> is_sleep (hd evs2)"
      by blast
    obtain v' evs2' where r2: "endpoints_loop c rest (h @ evs1) = (Inr v', (h @ evs1) @ evs2')"
      and ok2: "run_ok c rest v' evs2'"
      using endpoints_loop_run[of c rest "h @ evs1"] by blast
    have same2: "evs2' = evs2" using r2 rec hh by simp
    have last1: "evs1 \<noteq> [] \<longrightarrow> \<not> is_sleep (last evs1)"
      using ok1 by (simp add: visit_ok_def)
    have P: "paced (evs1 @ evs2)"
      using paced_append[OF _ p2 last1 hd2] p1 same by simp
    have M: "moves_on (distinct (ep # rest)) (evs1 @ evs2)"
    proof (rule moves_on_append)
      show "moves_on (distinct (ep # rest)) evs1"
        using m1 same by (auto intro: moves_on_mono)
      show "moves_on (distinct (ep # rest)) evs2"
        using m2 by (rule moves_on_mono[rotated]) simp
      show "evs2 \<noteq> [] \<longrightarrow> \<not> is_sleep (hd evs2)" by (rule hd2)
      show "distinct (ep # rest) \<longrightarrow>
          (\<forall>req r. EvFetch req r \<in> set evs1 \<longrightarrow> (\<forall>ev\<in>set evs2. \<not> fetch_of req ev))"
      proof (intro impI allI ballI)
        fix req r ev
        assume d: "distinct (ep # rest)" and in1: "EvFetch req r \<in> set evs1" and in2: "ev \<in> set evs2"
        have req: "req = onboard_request c ep"
          using ok1 in1 by (auto simp: visit_ok_def)
        show "\<not> fetch_of req ev"
        proof
          assume f: "fetch_of req ev"
          then obtain r' where ev: "ev = EvFetch req r'" by (cases ev) auto
          then obtain ep' where "ep' \<in> set rest" "req = onboard_request c ep'"
            using ok2 in2 same2 by (auto simp: run_ok_def)
          then show False using d req onboard_request_inj by auto
        qed
      qed
    qed
    have H: "evs1 @ evs2 \<noteq> [] \<longrightarrow> \<not> is_sleep (hd (evs1 @ evs2))"
      using hd1s hd2 by (cases evs1) auto
    show ?thesis using hh P M H by (intro exI[of _ "evs1 @ evs2"]) simp
  qed
qed

lemma paced_tail: "paced (pre @ xs) \<Longrightarrow> paced xs"
proof (induction pre)
  case Nil
  then show ?case by simp
next
  case (Cons e pre)
  then show ?case by (cases e) auto
qed


lemma sleep_between_fetches:
  assumes p: "paced tr" and h: "tr \<noteq> [] \<longrightarrow> \<not> is_sleep (hd tr)"
    and tr: "tr = pre @ EvSleep ms # post"
  shows "\<exists>pre' req r r' post'. pre = pre' @ [EvFetch req r] \<and> post = EvFetch req r' # post'"
proof -
  have ne: "pre \<noteq> []" using h tr by (cases pre) auto
  then obtain pre' e where pre: "pre = pre' @ [e]" by (metis rev_exhaust)
  have "paced (e # EvSleep ms # post)"
    using p tr pre paced_tail[of pre' "e # EvSleep ms # post"] by simp
  then obtain req r where e: "e = EvFetch req r" and post: "post \<noteq> []" "fetch_of req (hd post)"
    by (cases e) auto
  then obtain r' post' where "post = EvFetch req r' # post'"
    by (cases post; cases "hd post") auto
  then show ?thesis using pre e by blast
qed


lemma onboardUser_order:
  "paced (snd (onboardUser net eps hdrs tok tier pid ma dm)) \<and>
   moves_on (distinct eps) (snd (onboardUser net eps hdrs tok tier pid ma dm)) \<and>
   (snd (onboardUser net eps hdrs tok tier pid ma dm) \<noteq> [] \<longrightarrow>
      \<not> is_sleep (hd (snd (onboardUser net eps hdrs tok tier pid ma dm))))"
  using endpoints_loop_order[of "scope_of net hdrs tok tier pid ma dm" eps "[]"
      "fst (onboardUser net eps hdrs tok tier pid ma dm)"
      "snd (onboardUser net eps hdrs tok tier pid ma dm)"]
  by (simp add: onboardUser_def)

subsection \<open>Runs against the stand-in networks\<close>

lemma body_facts:
  "own_prop (done_with_id v) ''done'' = JBool True"
  "managed_id (done_with_id v) = v"
  "own_prop done_without_id ''done'' = JBool True"
  "managed_id done_without_id = JUndef"
  "own_prop not_done ''done'' = JBool False"
  "managed_id not_done = JUndef"
  "\<not> nullish (done_with_id v)" "\<not> nullish done_without_id" "\<not> nullish not_done"
  by (simp_all add: done_with_id_def done_without_id_def not_done_def managed_id_def opt_prop_def)

lemma json_response_simps [simp]:
  "ok (json_response data)" "json_result (json_response data) = Inr data"
  by (simp_all add: json_response_def)

lemma poll_facts:
  "parsed_poll (Inr (json_response (done_with_id v))) = Some (done_with_id v)"
  "parsed_poll (Inr (json_response done_without_id)) = Some done_without_id"
  "parsed_poll (Inr (json_response not_done)) = Some not_done"
  "parsed_poll (Inr (error_response n)) = None"
  "parsed_poll (Inl e) = None"
  by (simp_all add: parsed_poll_def body_facts error_response_def)

lemma completion_facts:
  "completion pid (Inr (json_response (done_with_id v))) =
     (if truthy v then Some v else if str_truthy pid then Some (str_val pid) else None)"
  "completion pid (Inr (json_response done_without_id)) =
     (if str_truthy pid then Some (str_val pid) else None)"
  "completion pid (Inr (json_response not_done)) = None"
  "completion pid (Inr (error_response n)) = None"
  "completion pid (Inl e) = None"
  by (simp_all add: completion_def poll_facts body_facts)

lemma onboard_simps:
  "onboardUser net eps hdrs tok tier pid ma dm =
     endpoints_loop (scope_of net hdrs tok tier pid ma dm) eps []"
  by (simp add: onboardUser_def)

subsection \<open>Onboarding\<close>

text \<open>
  Claim C1. In the effects of any run of \<open>onboardUser\<close>, take a poll that succeeded (the
  response is \<open>ok\<close> and its body parsed) and whose \<open>done\<close> is truthy, as \<open>true\<close> is. If
  the managed identifier \<open>response.cloudaicompanionProject.id\<close> is truthy, the run returned
  that identifier and the poll is the last effect of the run: no attempt, endpoint or sleep
  came after it. This holds whether or not the caller gave a \<open>projectId\<close>, so the managed
  identifier takes precedence. If the managed identifier is not truthy and the caller's
  \<open>projectId\<close> is, the run returned that \<open>projectId\<close>, and again the poll is the last effect.
  Present and supplied are read as the code tests them, by truthiness.
\<close>

theorem completed_poll_ends_run:
  assumes run: "onboardUser net eps hdrs tok tier pid ma dm = (res, tr)"
    and i: "i < length tr" and ev: "tr ! i = EvFetch req (Inr resp)"
    and resp: "ok resp" "json_result resp = Inr data"
    and dn: "truthy (own_prop data ''done'')"
  shows "(truthy (managed_id data) \<longrightarrow> res = Inr (managed_id data) \<and> Suc i = length tr) \<and>
         (\<not> truthy (managed_id data) \<and> str_truthy pid \<longrightarrow>
            res = Inr (str_val pid) \<and> Suc i = length tr)"
proof -
  let ?c = "scope_of net hdrs tok tier pid ma dm"
  obtain v where res: "res = Inr v" and ok: "run_ok ?c eps v tr"
    using onboardUser_run[of net eps hdrs tok tier pid ma dm] run by auto
  have comp: "completes pid (tr ! i) = completion pid (Inr resp)"
    using ev by simp
  have key: "completes pid (tr ! i) = Some w \<Longrightarrow> res = Inr w \<and> Suc i = length tr" for w
  proof -
    assume w: "completes pid (tr ! i) = Some w"
    have not_early: "\<not> i < length tr - 1"
    proof
      assume "i < length tr - 1"
      then have "tr ! i \<in> set (butlast tr)"
        by (metis length_butlast nth_butlast nth_mem)
      then show False using ok w by (simp add: run_ok_def)
    qed
    then have last: "Suc i = length tr" using i by simp
    then have "last tr = tr ! i" using i
      by (metis diff_Suc_1 last_conv_nth length_0_conv nat.simps(3))
    moreover have "tr ! i \<in> set tr" using i by simp
    ultimately have "completes pid (last tr) = Some v"
      using ok w by (auto simp: run_ok_def)
    then show ?thesis using w \<open>last tr = tr ! i\<close> res last by simp
  qed
  show ?thesis
    using key comp completion_done[OF resp dn, of pid] by simp
qed

text \<open>
  Claim C1, two instances with a \<open>projectId\<close> supplied: a first response that is done and
  carries the identifier \<open>X\<close> gives \<open>X\<close>; a first response that is done and carries none gives
  the \<open>projectId\<close>. One fetch is made in each, though two endpoints and ten attempts were
  allowed.
\<close>

theorem completed_poll_ends_run_witness:
  "onboardUser (always_responds (json_response (done_with_id (JStr ''X''))))
      [''https://a'', ''https://b''] [] ''t'' ''PRO'' (Some ''p'') None None
     = (Inr (JStr ''X''),
        [EvFetch (onboard_request (scope_of (always_responds (json_response (done_with_id (JStr ''X''))))
                    [] ''t'' ''PRO'' (Some ''p'') None None) ''https://a'')
                 (Inr (json_response (done_with_id (JStr ''X''))))]) \<and>
   ok (json_response (done_with_id (JStr ''X''))) \<and>
   truthy (own_prop (done_with_id (JStr ''X'')) ''done'') \<and>
   truthy (managed_id (done_with_id (JStr ''X''))) \<and>
   managed_id (done_with_id (JStr ''X'')) = JStr ''X'' \<and>
   onboardUser (always_responds (json_response done_without_id))
      [''https://a'', ''https://b''] [] ''t'' ''PRO'' (Some ''p'') None None
     = (Inr (JStr ''p''),
        [EvFetch (onboard_request (scope_of (always_responds (json_response done_without_id))
                    [] ''t'' ''PRO'' (Some ''p'') None None) ''https://a'')
                 (Inr (json_response done_without_id))]) \<and>
   truthy (own_prop done_without_id ''done'') \<and>
   \<not> truthy (managed_id done_without_id) \<and> str_truthy (Some ''p'') \<and>
   str_val (Some ''p'') = JStr ''p''"
proof -
  let ?netA = "always_responds (json_response (done_with_id (JStr ''X'')))"
  let ?netB = "always_responds (json_response done_without_id)"
  let ?evA = "EvFetch (onboard_request (scope_of ?netA [] ''t'' ''PRO'' (Some ''p'') None None) ''https://a'')
                 (Inr (json_response (done_with_id (JStr ''X''))))"
  let ?evB = "EvFetch (onboard_request (scope_of ?netB [] ''t'' ''PRO'' (Some ''p'') None None) ''https://a'')
                 (Inr (json_response done_without_id))"
  have factsA: "ok (json_response (done_with_id (JStr ''X'')))"
      "json_result (json_response (done_with_id (JStr ''X''))) = Inr (done_with_id (JStr ''X''))"
      "truthy (own_prop (done_with_id (JStr ''X'')) ''done'')"
      "truthy (managed_id (done_with_id (JStr ''X'')))"
    by (simp_all add: body_facts)
  have factsB: "ok (json_response done_without_id)"
      "json_result (json_response done_without_id) = Inr done_without_id"
      "truthy (own_prop done_without_id ''done'')"
      "\<not> truthy (managed_id done_without_id)" "str_truthy (Some ''p'')"
    by (simp_all add: body_facts str_truthy_def)
  obtain resA trA where runA:
    "onboardUser ?netA [''https://a'', ''https://b''] [] ''t'' ''PRO'' (Some ''p'') None None = (resA, trA)"
    by (cases "onboardUser ?netA [''https://a'', ''https://b''] [] ''t'' ''PRO'' (Some ''p'') None None")
  have trA: "trA = [?evA]"
    using runA
    by (simp add: onboard_simps attempts_loop_unfold always_responds_def completion_facts Let_def)
  have "resA = Inr (managed_id (done_with_id (JStr ''X''))) \<and> Suc 0 = length trA"
    using completed_poll_ends_run[OF runA, of 0 _ "json_response (done_with_id (JStr ''X''))"
        "done_with_id (JStr ''X'')"] factsA trA
    by simp
  then have A: "onboardUser ?netA [''https://a'', ''https://b''] [] ''t'' ''PRO'' (Some ''p'') None None
       = (Inr (JStr ''X''), [?evA])"
    using runA trA by (simp add: body_facts)
  obtain resB trB where runB:
    "onboardUser ?netB [''https://a'', ''https://b''] [] ''t'' ''PRO'' (Some ''p'') None None = (resB, trB)"
    by (cases "onboardUser ?netB [''https://a'', ''https://b''] [] ''t'' ''PRO'' (Some ''p'') None None")
  have trB: "trB = [?evB]"
    using runB
    by (simp add: onboard_simps attempts_loop_unfold always_responds_def completion_facts Let_def
          str_truthy_def)
  have "resB = Inr (str_val (Some ''p'')) \<and> Suc 0 = length trB"
    using completed_poll_ends_run[OF runB, of 0 _ "json_response done_without_id" done_without_id]
      factsB trB
    by simp
  then have B: "onboardUser ?netB [''https://a'', ''https://b''] [] ''t'' ''PRO'' (Some ''p'') None None
       = (Inr (JStr ''p''), [?evB])"
    using runB trB by (simp add: str_val_def)
  show ?thesis
    using A B factsA factsB by (simp add: body_facts str_val_def)
qed



text \<open>
  Claim C3. Every run of \<open>onboardUser\<close> resolves to a value, for every token, tier,
  \<open>projectId\<close>, \<open>maxAttempts\<close> and \<open>delayMs\<close> and every network: no exception reaches the
  caller. The value is \<open>null\<close>, the caller's non-empty \<open>projectId\<close>, or the truthy value found
  at \<open>response.cloudaicompanionProject.id\<close> of a response of the run. When no poll of the
  run completed the onboarding, the value is \<open>null\<close>. With a service that keeps to its
  response shape, the identifier a string when there is one, the value is a string or
  \<open>null\<close>.
\<close>

theorem onboardUser_outcome:
  "\<exists>v tr. onboardUser net eps hdrs tok tier pid ma dm = (Inr v, tr) \<and>
     (v = JNull \<or> (str_truthy pid \<and> v = str_val pid) \<or>
      (truthy v \<and> (\<exists>req resp data. EvFetch req (Inr resp) \<in> set tr \<and>
                      json_result resp = Inr data \<and> v = managed_id data))) \<and>
     ((\<forall>ev\<in>set tr. completes pid ev = None) \<longrightarrow> v = JNull) \<and>
     (sends_string_ids net \<longrightarrow> is_string_or_null v)"
proof -
  let ?c = "scope_of net hdrs tok tier pid ma dm"
  obtain v tr where run: "onboardUser net eps hdrs tok tier pid ma dm = (Inr v, tr)"
    and ok: "run_ok ?c eps v tr"
    using onboardUser_run[of net eps hdrs tok tier pid ma dm] by blast
  have quiet: "(\<forall>ev\<in>set tr. completes pid ev = None) \<longrightarrow> v = JNull"
    using ok by (auto simp: run_ok_def)
  have shape: "(v = JNull \<or> (str_truthy pid \<and> v = str_val pid) \<or>
      (truthy v \<and> (\<exists>req resp data. EvFetch req (Inr resp) \<in> set tr \<and>
                      json_result resp = Inr data \<and> v = managed_id data))) \<and>
     (sends_string_ids net \<longrightarrow> is_string_or_null v)"
  proof (cases "v = JNull")
    case True
    then show ?thesis by (simp add: is_string_or_null_def)
  next
    case False
    then have ne: "tr \<noteq> []" and l: "completes pid (last tr) = Some v"
      using ok by (auto simp: run_ok_def)
    from last_completes_cases[OF l] obtain req resp data where
      ev: "last tr = EvFetch req (Inr resp)" and pp: "parsed_poll (Inr resp) = Some data"
      and j: "json_result resp = Inr data"
      and alt: "truthy v \<and> v = managed_id data \<or> str_truthy pid \<and> v = str_val pid"
      by blast
    have mem: "EvFetch req (Inr resp) \<in> set tr"
      using ne ev by (metis last_in_set)
    then obtain h' where "Inr resp = net h' req"
      using ok by (auto simp: run_ok_def)
    then have sid: "sends_string_ids net \<Longrightarrow> string_or_missing (managed_id data)"
      using pp by (auto simp: sends_string_ids_def split: option.splits dest: spec[of _ h'] )
    show ?thesis
    proof (intro conjI impI)
      show "v = JNull \<or> (str_truthy pid \<and> v = str_val pid) \<or>
        (truthy v \<and> (\<exists>req resp data. EvFetch req (Inr resp) \<in> set tr \<and>
                      json_result resp = Inr data \<and> v = managed_id data))"
        using alt mem j by blast
      assume "sends_string_ids net"
      then show "is_string_or_null v"
        using alt sid string_id[of v] str_truthy_val[of pid] by (auto simp: is_string_or_null_def)
    qed
  qed
  show ?thesis using run quiet shape by blast
qed

text \<open>
  Claim C3, two instances: a service that is never done, two attempts, gives \<open>null\<close>; a
  service that is done with the identifier \<open>X\<close> gives the string \<open>X\<close>.
\<close>

theorem onboardUser_outcome_witness:
  "sends_string_ids (always_responds (json_response not_done)) \<and>
   fst (onboardUser (always_responds (json_response not_done))
          [''https://a''] [] ''t'' ''FREE'' None (Some 2) (Some 100)) = Inr JNull \<and>
   completes None
     (EvFetch (onboard_request (scope_of (always_responds (json_response not_done))
                  [] ''t'' ''FREE'' None (Some 2) (Some 100)) ''https://a'')
              (Inr (json_response not_done))) = None \<and>
   completes None (EvSleep 100) = None \<and>
   sends_string_ids (always_responds (json_response (done_with_id (JStr ''X'')))) \<and>
   fst (onboardUser (always_responds (json_response (done_with_id (JStr ''X''))))
          [''https://a''] [] ''t'' ''FREE'' None None None) = Inr (JStr ''X'') \<and>
   is_string_or_null (JStr ''X'') \<and> is_string_or_null JNull"
proof -
  let ?n = "always_responds (json_response not_done)"
  let ?x = "always_responds (json_response (done_with_id (JStr ''X'')))"
  have sn: "sends_string_ids ?n"
    by (simp add: sends_string_ids_def always_responds_def poll_facts body_facts string_or_missing_def)
  have sx: "sends_string_ids ?x"
    by (simp add: sends_string_ids_def always_responds_def poll_facts body_facts string_or_missing_def)
  have rn: "onboardUser ?n [''https://a''] [] ''t'' ''FREE'' None (Some 2) (Some 100)
     = (Inr JNull,
        [EvFetch (onboard_request (scope_of ?n [] ''t'' ''FREE'' None (Some 2) (Some 100)) ''https://a'')
           (Inr (json_response not_done)),
         EvSleep 100,
         EvFetch (onboard_request (scope_of ?n [] ''t'' ''FREE'' None (Some 2) (Some 100)) ''https://a'')
           (Inr (json_response not_done))])"
    by (simp add: onboard_simps attempts_loop_unfold always_responds_def completion_facts poll_facts Let_def)
  have rx: "onboardUser ?x [''https://a''] [] ''t'' ''FREE'' None None None
     = (Inr (JStr ''X''),
        [EvFetch (onboard_request (scope_of ?x [] ''t'' ''FREE'' None None None) ''https://a'')
           (Inr (json_response (done_with_id (JStr ''X''))))])"
    by (simp add: onboard_simps attempts_loop_unfold always_responds_def completion_facts Let_def)
  obtain v tr where
    1: "onboardUser ?n [''https://a''] [] ''t'' ''FREE'' None (Some 2) (Some 100) = (Inr v, tr)"
    and 2: "(\<forall>ev\<in>set tr. completes None ev = None) \<longrightarrow> v = JNull"
    and 3: "sends_string_ids ?n \<longrightarrow> is_string_or_null v"
    using onboardUser_outcome[of ?n "[''https://a'']" "[]" "''t''" "''FREE''" None "Some 2" "Some 100"]
    by blast
  have quiet: "\<forall>ev\<in>set tr. completes None ev = None"
    using 1 unfolding rn by (auto simp: completion_facts)
  have vn: "v = JNull" using 2 quiet by blast
  have a: "fst (onboardUser ?n [''https://a''] [] ''t'' ''FREE'' None (Some 2) (Some 100)) = Inr JNull"
    using 1 vn by simp
  obtain w tw where
    4: "onboardUser ?x [''https://a''] [] ''t'' ''FREE'' None None None = (Inr w, tw)"
    and 5: "sends_string_ids ?x \<longrightarrow> is_string_or_null w"
    using onboardUser_outcome[of ?x "[''https://a'']" "[]" "''t''" "''FREE''" None None None]
    by blast
  have wx: "w = JStr ''X''" using 4 unfolding rx by simp
  have b: "is_string_or_null (JStr ''X'')" using 5 sx wx by blast
  have c: "is_string_or_null JNull" using 3 sn vn by blast
  show ?thesis
    using sn sx a b c rx by (simp add: completion_facts)
qed

text \<open>
  Claim C6. The request body has the field \<open>cloudaicompanionProject\<close> exactly when the tier
  is not \<open>FREE\<close> and a project identifier was supplied (a non-empty string), and the field
  then holds that identifier; for the tier \<open>FREE\<close> the body has no such field, whatever the
  project identifier. Every \<open>fetch\<close> of a run of \<open>onboardUser\<close> carries this body.
\<close>

theorem requestBody_cloudaicompanionProject:
  "(has_field (requestBody tier pid) ''cloudaicompanionProject'' \<longleftrightarrow>
      tier \<noteq> ''FREE'' \<and> str_truthy pid) \<and>
   (tier \<noteq> ''FREE'' \<and> pid = Some p \<and> p \<noteq> [] \<longrightarrow>
      map_of (requestBody tier pid) ''cloudaicompanionProject'' = Some (JStr p)) \<and>
   \<not> has_field (requestBody ''FREE'' pid) ''cloudaicompanionProject'' \<and>
   (\<forall>req r. EvFetch req r \<in> set (snd (onboardUser net eps hdrs tok tier pid ma dm)) \<longrightarrow>
      payload req = JObj (requestBody tier pid))"
proof -
  let ?c = "scope_of net hdrs tok tier pid ma dm"
  obtain v tr where run: "onboardUser net eps hdrs tok tier pid ma dm = (Inr v, tr)"
    and ok: "run_ok ?c eps v tr"
    using onboardUser_run[of net eps hdrs tok tier pid ma dm] by blast
  have sent: "\<forall>req r. EvFetch req r \<in> set (snd (onboardUser net eps hdrs tok tier pid ma dm)) \<longrightarrow>
      payload req = JObj (requestBody tier pid)"
    using ok run by (auto simp: run_ok_def onboard_request_def)
  have body: "(has_field (requestBody tier pid) ''cloudaicompanionProject'' \<longleftrightarrow>
      tier \<noteq> ''FREE'' \<and> str_truthy pid) \<and>
   (tier \<noteq> ''FREE'' \<and> pid = Some p \<and> p \<noteq> [] \<longrightarrow>
      map_of (requestBody tier pid) ''cloudaicompanionProject'' = Some (JStr p)) \<and>
   \<not> has_field (requestBody ''FREE'' pid) ''cloudaicompanionProject''"
    by (auto simp: requestBody_def has_field_def str_truthy_def str_val_def Let_def)
  show ?thesis using sent body by blast
qed

text \<open>
  Claim C6, an instance: the tier \<open>PRO\<close> with the project \<open>my-project\<close>, the same project
  with the tier \<open>FREE\<close>, and the body of the request of a run.
\<close>

theorem requestBody_cloudaicompanionProject_witness:
  "''PRO'' \<noteq> ''FREE'' \<and> str_truthy (Some ''my-project'') \<and> ''my-project'' \<noteq> [] \<and>
   has_field (requestBody ''PRO'' (Some ''my-project'')) ''cloudaicompanionProject'' \<and>
   map_of (requestBody ''PRO'' (Some ''my-project'')) ''cloudaicompanionProject''
     = Some (JStr ''my-project'') \<and>
   \<not> has_field (requestBody ''FREE'' (Some ''my-project'')) ''cloudaicompanionProject'' \<and>
   EvFetch (onboard_request (scope_of (always_responds (json_response (done_with_id (JStr ''X''))))
               [] ''t'' ''PRO'' (Some ''my-project'') None None) ''https://a'')
           (Inr (json_response (done_with_id (JStr ''X''))))
     \<in> set (snd (onboardUser (always_responds (json_response (done_with_id (JStr ''X''))))
                    [''https://a''] [] ''t'' ''PRO'' (Some ''my-project'') None None)) \<and>
   payload (onboard_request (scope_of (always_responds (json_response (done_with_id (JStr ''X''))))
               [] ''t'' ''PRO'' (Some ''my-project'') None None) ''https://a'')
     = JObj [(''tierId'', JStr ''PRO''),
             (''metadata'', JObj [(''ideType'', JStr ''IDE_UNSPECIFIED''),
                                  (''platform'', JStr ''PLATFORM_UNSPECIFIED''),
                                  (''pluginType'', JStr ''GEMINI''),
                                  (''duetProject'', JStr ''my-project'')]),
             (''cloudaicompanionProject'', JStr ''my-project'')]"
proof -
  let ?x = "always_responds (json_response (done_with_id (JStr ''X'')))"
  let ?req = "onboard_request (scope_of ?x [] ''t'' ''PRO'' (Some ''my-project'') None None) ''https://a''"
  note T = requestBody_cloudaicompanionProject
     [of "''PRO''" "Some ''my-project''" "''my-project''" ?x "[''https://a'']" "[]" "''t''" None None]
  note F = requestBody_cloudaicompanionProject
     [of "''FREE''" "Some ''my-project''" "''my-project''" ?x "[''https://a'']" "[]" "''t''" None None]
  have h: "''PRO'' \<noteq> ''FREE''" "str_truthy (Some ''my-project'')" "''my-project'' \<noteq> []"
    by (simp_all add: str_truthy_def)
  have 1: "has_field (requestBody ''PRO'' (Some ''my-project'')) ''cloudaicompanionProject''"
    using T h by blast
  have 2: "map_of (requestBody ''PRO'' (Some ''my-project'')) ''cloudaicompanionProject''
     = Some (JStr ''my-project'')"
    using T h by blast
  have 3: "\<not> has_field (requestBody ''FREE'' (Some ''my-project'')) ''cloudaicompanionProject''"
    using F by blast
  have mem: "EvFetch ?req (Inr (json_response (done_with_id (JStr ''X''))))
     \<in> set (snd (onboardUser ?x [''https://a''] [] ''t'' ''PRO'' (Some ''my-project'') None None))"
    by (simp add: onboard_simps attempts_loop_unfold always_responds_def completion_facts Let_def)
  have 4: "payload ?req = JObj (requestBody ''PRO'' (Some ''my-project''))"
    using T mem by blast
  have 5: "requestBody ''PRO'' (Some ''my-project'')
     = [(''tierId'', JStr ''PRO''),
        (''metadata'', JObj [(''ideType'', JStr ''IDE_UNSPECIFIED''),
                             (''platform'', JStr ''PLATFORM_UNSPECIFIED''),
                             (''pluginType'', JStr ''GEMINI''),
                             (''duetProject'', JStr ''my-project'')]),
        (''cloudaicompanionProject'', JStr ''my-project'')]"
    by (simp add: requestBody_def metadata_def str_truthy_def str_val_def)
  show ?thesis
    using h 1 2 3 mem 4 unfolding 5 by simp
qed

text \<open>
  Claim C9. At the last allowed attempt of an endpoint, index \<open>maxAttempts - 1\<close>, after any
  effects \<open>h\<close>, the attempt loop adds the \<open>fetch\<close> of that attempt to the effects and
  nothing else, whatever the outcome; the run then either returns with exactly these
  effects or goes on as the loop over the endpoints after it, from exactly these effects;
  and the loop over no endpoints returns \<open>null\<close> with the effects it was given. So the
  effects of a whole run never end in a sleep. When the first response of the first
  endpoint is done and carries a truthy managed identifier, \<open>onboardUser\<close> returns that
  identifier and the only effect of the run is that one \<open>fetch\<close>. And every sleep among
  the effects of a run stands between two fetches of the same request: none comes before
  a move to another endpoint or before the return.
\<close>

theorem no_trailing_sleep:
  "(\<exists>res. attempts_loop c endpoint (maxAttempts c - 1) h =
      (Inr res, h @ [EvFetch (onboard_request c endpoint) (fetch c h (onboard_request c endpoint))])) \<and>
   ((\<exists>v. run_from c endpoint (maxAttempts c - 1) rest h =
      (Inr v, h @ [EvFetch (onboard_request c endpoint) (fetch c h (onboard_request c endpoint))])) \<or>
    run_from c endpoint (maxAttempts c - 1) rest h =
      endpoints_loop c rest
        (h @ [EvFetch (onboard_request c endpoint) (fetch c h (onboard_request c endpoint))])) \<and>
   endpoints_loop c [] h = (Inr JNull, h) \<and>
   (snd (onboardUser net eps hdrs tok tier pid ma dm) \<noteq> [] \<longrightarrow>
      \<not> is_sleep (last (snd (onboardUser net eps hdrs tok tier pid ma dm)))) \<and>
   (0 < (case ma of None \<Rightarrow> 10 | Some m \<Rightarrow> m) \<and>
    net [] (onboard_request (scope_of net hdrs tok tier pid ma dm) ep) = Inr resp \<and>
    ok resp \<and> json_result resp = Inr data \<and>
    truthy (own_prop data ''done'') \<and> truthy (managed_id data) \<longrightarrow>
      onboardUser net (ep # eps) hdrs tok tier pid ma dm =
        (Inr (managed_id data),
         [EvFetch (onboard_request (scope_of net hdrs tok tier pid ma dm) ep) (Inr resp)])) \<and>
   (snd (onboardUser net eps hdrs tok tier pid ma dm) = pre @ EvSleep ms # post \<longrightarrow>
      (\<exists>pre' req r r' post'. pre = pre' @ [EvFetch req r] \<and> post = EvFetch req r' # post'))"
proof -
  let ?r = "fetch c h (onboard_request c endpoint)"
  let ?ev = "EvFetch (onboard_request c endpoint) ?r"
  have stop: "attempts_loop c endpoint (maxAttempts c) h' = (Inr None, h')" for h'
    by (subst attempts_loop_unfold) simp
  have last_attempt: "attempts_loop c endpoint (maxAttempts c - 1) h =
     (case completion (projectId c) ?r of
        Some v \<Rightarrow> (Inr (Some v), h @ [?ev])
      | None \<Rightarrow> (Inr None, h @ [?ev]))"
    by (subst attempts_loop_unfold) (simp add: Let_def stop split: option.splits)
  have 1: "\<exists>res. attempts_loop c endpoint (maxAttempts c - 1) h = (Inr res, h @ [?ev])"
    using last_attempt by (simp split: option.splits)
  have 2: "(\<exists>v. run_from c endpoint (maxAttempts c - 1) rest h = (Inr v, h @ [?ev])) \<or>
    run_from c endpoint (maxAttempts c - 1) rest h = endpoints_loop c rest (h @ [?ev])"
    using last_attempt by (simp add: run_from_def split: option.splits)
  let ?c = "scope_of net hdrs tok tier pid ma dm"
  obtain v tr where run: "onboardUser net eps hdrs tok tier pid ma dm = (Inr v, tr)"
    and ok: "run_ok ?c eps v tr"
    using onboardUser_run[of net eps hdrs tok tier pid ma dm] by blast
  have 3: "snd (onboardUser net eps hdrs tok tier pid ma dm) \<noteq> [] \<longrightarrow>
      \<not> is_sleep (last (snd (onboardUser net eps hdrs tok tier pid ma dm)))"
    using run ok by (simp add: run_ok_def)
  have 4: "0 < (case ma of None \<Rightarrow> 10 | Some m \<Rightarrow> m) \<and>
    net [] (onboard_request ?c ep) = Inr resp \<and>
    ok resp \<and> json_result resp = Inr data \<and>
    truthy (own_prop data ''done'') \<and> truthy (managed_id data) \<longrightarrow>
      onboardUser net (ep # eps) hdrs tok tier pid ma dm =
        (Inr (managed_id data), [EvFetch (onboard_request ?c ep) (Inr resp)])"
  proof
    assume a: "0 < (case ma of None \<Rightarrow> 10 | Some m \<Rightarrow> m) \<and>
      net [] (onboard_request ?c ep) = Inr resp \<and>
      ok resp \<and> json_result resp = Inr data \<and>
      truthy (own_prop data ''done'') \<and> truthy (managed_id data)"
    then have comp: "completion pid (Inr resp) = Some (managed_id data)"
      using completion_done[of resp data pid] by simp
    have "attempts_loop ?c ep 0 [] =
        (Inr (Some (managed_id data)), [EvFetch (onboard_request ?c ep) (Inr resp)])"
      using a comp by (subst attempts_loop_unfold) (simp add: Let_def)
    then show "onboardUser net (ep # eps) hdrs tok tier pid ma dm =
        (Inr (managed_id data), [EvFetch (onboard_request ?c ep) (Inr resp)])"
      by (simp add: onboardUser_def)
  qed
  have 5: "snd (onboardUser net eps hdrs tok tier pid ma dm) = pre @ EvSleep ms # post \<longrightarrow>
      (\<exists>pre' req r r' post'. pre = pre' @ [EvFetch req r] \<and> post = EvFetch req r' # post')"
    using sleep_between_fetches[of "snd (onboardUser net eps hdrs tok tier pid ma dm)" pre ms post]
      onboardUser_order[of net eps hdrs tok tier pid ma dm]
    by blast
  show ?thesis using 1 2 3 4 5 by simp
qed

text \<open>
  Claim C9, two instances: a service that is never done, two attempts, gives a fetch, a
  sleep and a fetch; a service that is done with \<open>X\<close> at once gives \<open>X\<close> after one fetch.
\<close>

theorem no_trailing_sleep_witness:
  "snd (onboardUser (always_responds (json_response not_done))
          [''https://a''] [] ''t'' ''FREE'' None (Some 2) (Some 100)) \<noteq> [] \<and>
   map is_sleep (snd (onboardUser (always_responds (json_response not_done))
          [''https://a''] [] ''t'' ''FREE'' None (Some 2) (Some 100))) = [False, True, False] \<and>
   \<not> is_sleep (last (snd (onboardUser (always_responds (json_response not_done))
          [''https://a''] [] ''t'' ''FREE'' None (Some 2) (Some 100)))) \<and>
   snd (onboardUser (always_responds (json_response not_done))
          [''https://a''] [] ''t'' ''FREE'' None (Some 2) (Some 100))
     = [EvFetch (onboard_request (scope_of (always_responds (json_response not_done))
                   [] ''t'' ''FREE'' None (Some 2) (Some 100)) ''https://a'')
                (Inr (json_response not_done))]
       @ EvSleep 100
       # [EvFetch (onboard_request (scope_of (always_responds (json_response not_done))
                     [] ''t'' ''FREE'' None (Some 2) (Some 100)) ''https://a'')
                  (Inr (json_response not_done))] \<and>
   (0::int) < (case (None :: int option) of None \<Rightarrow> 10 | Some m \<Rightarrow> m) \<and>
   ok (json_response (done_with_id (JStr ''X''))) \<and>
   truthy (own_prop (done_with_id (JStr ''X'')) ''done'') \<and>
   truthy (managed_id (done_with_id (JStr ''X''))) \<and>
   onboardUser (always_responds (json_response (done_with_id (JStr ''X''))))
      [''https://a'', ''https://b''] [] ''t'' ''FREE'' None None None
     = (Inr (JStr ''X''),
        [EvFetch (onboard_request (scope_of (always_responds (json_response (done_with_id (JStr ''X''))))
                    [] ''t'' ''FREE'' None None None) ''https://a'')
                 (Inr (json_response (done_with_id (JStr ''X''))))])"
proof -
  let ?n = "always_responds (json_response not_done)"
  let ?x = "always_responds (json_response (done_with_id (JStr ''X'')))"
  let ?cx = "scope_of ?x [] ''t'' ''FREE'' None None None"
  have rn: "snd (onboardUser ?n [''https://a''] [] ''t'' ''FREE'' None (Some 2) (Some 100))
     = [EvFetch (onboard_request (scope_of ?n [] ''t'' ''FREE'' None (Some 2) (Some 100)) ''https://a'')
           (Inr (json_response not_done)),
         EvSleep 100,
         EvFetch (onboard_request (scope_of ?n [] ''t'' ''FREE'' None (Some 2) (Some 100)) ''https://a'')
           (Inr (json_response not_done))]"
    by (simp add: onboard_simps attempts_loop_unfold always_responds_def completion_facts poll_facts Let_def)
  have ne: "snd (onboardUser ?n [''https://a''] [] ''t'' ''FREE'' None (Some 2) (Some 100)) \<noteq> []"
    unfolding rn by simp
  note N = no_trailing_sleep
     [where net = ?n and eps = "[''https://a'']" and hdrs = "[]" and tok = "''t''" and tier = "''FREE''"
        and pid = None and ma = "Some 2" and dm = "Some 100"]
  have 1: "\<not> is_sleep (last (snd (onboardUser ?n [''https://a''] [] ''t'' ''FREE'' None (Some 2) (Some 100))))"
    using N ne by blast
  have hx: "0 < (case (None :: int option) of None \<Rightarrow> 10 | Some m \<Rightarrow> m) \<and>
      ?x [] (onboard_request ?cx ''https://a'') = Inr (json_response (done_with_id (JStr ''X''))) \<and>
      ok (json_response (done_with_id (JStr ''X''))) \<and>
      json_result (json_response (done_with_id (JStr ''X''))) = Inr (done_with_id (JStr ''X'')) \<and>
      truthy (own_prop (done_with_id (JStr ''X'')) ''done'') \<and>
      truthy (managed_id (done_with_id (JStr ''X'')))"
    by (simp add: always_responds_def body_facts)
  note X = no_trailing_sleep
     [where net = ?x and eps = "[''https://b'']" and hdrs = "[]" and tok = "''t''" and tier = "''FREE''"
        and pid = None and ma = None and dm = None and ep = "''https://a''"
        and resp = "json_response (done_with_id (JStr ''X''))" and data = "done_with_id (JStr ''X'')"]
  have 2: "onboardUser ?x [''https://a'', ''https://b''] [] ''t'' ''FREE'' None None None
     = (Inr (managed_id (done_with_id (JStr ''X''))),
        [EvFetch (onboard_request ?cx ''https://a'') (Inr (json_response (done_with_id (JStr ''X''))))])"
    using X hx by blast
  show ?thesis
    using ne 1 hx 2 unfolding rn by (simp add: body_facts)
qed

end
